theory Spec2Isabelle
  imports Main "HOL-Library.Multiset"
begin

section \<open>Python strings\<close>

text \<open>
  A Python \<open>str\<close> is modelled as a \<open>string\<close>: a list of characters, one list element per
  code point, restricted to the code points below 256. \<open>len\<close> is \<open>length\<close>, \<open>+\<close> is \<open>@\<close>.
\<close>

definition isspace :: "char \<Rightarrow> bool" where
  \<comment> \<open>\<open>str.isspace\<close> on one character; also the class \<open>\s\<close> of \<open>re\<close> on \<open>str\<close> patterns.\<close>
  "isspace c =
     (let n = (of_char c :: nat)
      in (9 \<le> n \<and> n \<le> 13) \<or> (28 \<le> n \<and> n \<le> 32) \<or> n = 133 \<or> n = 160)"

definition isdigit :: "char \<Rightarrow> bool" where
  \<comment> \<open>the class \<open>\d\<close> of \<open>re\<close>, on the code points below 256\<close>
  "isdigit c = (let n = (of_char c :: nat) in 48 \<le> n \<and> n \<le> 57)"

definition py_strip :: "string \<Rightarrow> string" where
  \<comment> \<open>\<open>s.strip()\<close>\<close>
  "py_strip s = rev (dropWhile isspace (rev (dropWhile isspace s)))"

fun py_split :: "char \<Rightarrow> string \<Rightarrow> string list" where
  \<comment> \<open>\<open>s.split(sep)\<close> for a separator of one character\<close>
  "py_split sep [] = [[]]"
| "py_split sep (c # cs) =
     (if c = sep then [] # py_split sep cs
      else (case py_split sep cs of
              [] \<Rightarrow> [[c]]
            | l # ls \<Rightarrow> (c # l) # ls))"

fun py_join :: "string \<Rightarrow> string list \<Rightarrow> string" where
  \<comment> \<open>\<open>sep.join(xs)\<close>\<close>
  "py_join sep [] = []"
| "py_join sep [x] = x"
| "py_join sep (x # y # ys) = x @ sep @ py_join sep (y # ys)"

fun startswith :: "string \<Rightarrow> string \<Rightarrow> bool" where
  \<comment> \<open>\<open>s.startswith(p)\<close>\<close>
  "startswith s [] = True"
| "startswith [] (p # ps) = False"
| "startswith (c # cs) (p # ps) = (c = p \<and> startswith cs ps)"

fun contains :: "string \<Rightarrow> string \<Rightarrow> bool" where
  \<comment> \<open>\<open>contains s p\<close> is Python's \<open>p in s\<close>\<close>
  "contains [] p = (p = [])"
| "contains (c # cs) p = (startswith (c # cs) p \<or> contains cs p)"

definition newline :: char where
  "newline = CHR 0x0A"

definition truthy :: "string option \<Rightarrow> bool" where
  \<comment> \<open>the truth value of a \<open>str\<close> or \<open>None\<close>: \<open>not content\<close> is \<open>\<not> truthy content\<close>\<close>
  "truthy c = (case c of None \<Rightarrow> False | Some s \<Rightarrow> s \<noteq> [])"

section \<open>Markdown clean-up\<close>

text \<open>
  \<^verbatim>\<open>
  lines = [line.strip() for line in content.split('\n')]
  content = '\n'.join(line for line in lines if line)
  \<close>
  (\<open>parse_local_html.py\<close> 127-128, \<open>webpage_to_llm.py\<close> 64-65, and the same two lines in
  every \<open>extract_content\<close>).
\<close>

definition clean_up :: "string \<Rightarrow> string" where
  "clean_up content =
     (let lines = map py_strip (py_split newline content)
      in py_join [newline] (filter (\<lambda>line. line \<noteq> []) lines))"

section \<open>Length limit\<close>

text \<open>
  \<^verbatim>\<open>
  if args.max_length and len(result) > args.max_length:
      result = result[:args.max_length] + "\n\n[Content truncated...]"
  \<close>
  (\<open>webpage_to_llm.py\<close> 171-173, \<open>webpage_to_llm_js.py\<close> 173-175). \<open>args.max_length\<close> is
  \<open>None\<close> when the option is absent and any \<open>int\<close> otherwise (\<open>type=int\<close>).
\<close>

definition truncated_suffix :: string where
  "truncated_suffix = [newline, newline] @ ''[Content truncated...]''"

definition slice_to :: "string \<Rightarrow> int \<Rightarrow> string" where
  \<comment> \<open>\<open>s[:m]\<close>: a negative bound counts from the end\<close>
  "slice_to s m = (if 0 \<le> m then take (nat m) s else take (length s - nat (- m)) s)"

definition apply_length_limit :: "int option \<Rightarrow> string \<Rightarrow> string" where
  "apply_length_limit max_length result =
     (case max_length of
        None \<Rightarrow> result
      | Some m \<Rightarrow>
          if m \<noteq> 0 \<and> int (length result) > m
          then slice_to result m @ truncated_suffix
          else result)"


section \<open>Exceptions\<close>

text \<open>
  An exception is a value: a call that can raise returns \<open>exn + 'a\<close>, with \<open>Inl\<close> the
  exception. All four are subclasses of \<open>Exception\<close>; \<open>RequestException\<close> stands for
  \<open>requests.RequestException\<close> and its subclasses, \<open>LibraryError\<close> for any other exception
  that comes out of a library call.
\<close>

datatype exn =
    RequestException string
  | ValueError string
  | UnicodeDecodeError string
  | LibraryError string

fun str_exn :: "exn \<Rightarrow> string" where
  \<comment> \<open>the text that \<open>f"{e}"\<close> inserts\<close>
  "str_exn (RequestException m) = m"
| "str_exn (ValueError m) = m"
| "str_exn (UnicodeDecodeError m) = m"
| "str_exn (LibraryError m) = m"

section \<open>Recovering the URL of a saved page\<close>

text \<open>
  \<open>parse_local_html.py\<close> 25-33.
  \<^verbatim>\<open>
  url = None
  for comment in soup.find_all(string=lambda text: isinstance(text, str)
                                                   and 'saved from url' in text):
      if 'saved from url' in comment:
          match = re.search(r'saved from url=\(\d+\)(https?://[^\s]+)', comment)
          if match:
              url = match.group(1).strip()
              break
  \<close>
  \<open>find_all(string=f)\<close> offers to \<open>f\<close> every string node of the tree in document order:
  each is a \<open>NavigableString\<close>, a subclass of \<open>str\<close>, whether it is the text of an element or
  a comment (\<open>Comment\<close> is a subclass of \<open>NavigableString\<close>). The parameter \<open>nodes\<close> below is
  that sequence, each node with its kind.
\<close>

datatype node_kind = TextNode | CommentNode

definition saved_from_url_match :: "string \<Rightarrow> string option" where
  \<comment> \<open>the pattern \<open>saved from url=\(\d+\)(https?://[^\s]+)\<close> matched at the start of \<open>s\<close>;
      the result is group 1. Every quantifier is greedy, and no shorter choice can succeed
      where the longest fails: a digit is not \<open>)\<close>, and \<open>s\<close> is not \<open>:\<close>.\<close>
  "saved_from_url_match s =
     (if \<not> startswith s ''saved from url=('' then None
      else
        let s1 = drop 16 s;
            digits = takeWhile isdigit s1;
            s2 = dropWhile isdigit s1
        in if digits = [] then None
           else if \<not> startswith s2 '')'' then None
           else
             let s3 = drop 1 s2
             in if \<not> startswith s3 ''http'' then None
                else
                  let s4 = drop 4 s3;
                      scheme = (if startswith s4 ''s'' then ''https'' else ''http'');
                      s5 = (if startswith s4 ''s'' then drop 1 s4 else s4)
                  in if \<not> startswith s5 ''://'' then None
                     else
                       let s6 = drop 3 s5;
                           rest = takeWhile (\<lambda>c. \<not> isspace c) s6
                       in if rest = [] then None
                          else Some (scheme @ ''://'' @ rest))"

fun re_search :: "string \<Rightarrow> string option" where
  \<comment> \<open>\<open>re.search\<close> with that pattern: the match at the leftmost position that has one\<close>
  "re_search [] = saved_from_url_match []"
| "re_search (c # cs) =
     (case saved_from_url_match (c # cs) of
        Some group1 \<Rightarrow> Some group1
      | None \<Rightarrow> re_search cs)"

fun url_loop :: "string list \<Rightarrow> string option" where
  "url_loop [] = None"
| "url_loop (comment # comments) =
     (if contains comment ''saved from url''
      then (case re_search comment of
              Some group1 \<Rightarrow> Some (py_strip group1)
            | None \<Rightarrow> url_loop comments)
      else url_loop comments)"

definition recover_url :: "(node_kind \<times> string) list \<Rightarrow> string option" where
  "recover_url nodes =
     url_loop (filter (\<lambda>text. contains text ''saved from url'') (map snd nodes))"

section \<open>The Scorer that scores every selector match\<close>

text \<open>
  \<open>parse_local_html.py\<close> 94-106. DOM elements are opaque handles of type \<open>'e\<close>; the two
  BeautifulSoup calls are parameters: \<open>select selector\<close> is \<open>soup.select(selector)\<close> on the
  tree left by the removal pass (\<open>Inl\<close> when it raises), and \<open>get_text elem\<close> is
  \<open>elem.get_text(strip=True)\<close>. A \<open>Tag\<close> is always true as a condition (\<open>Tag.__bool__\<close>), so
  \<open>not main_content\<close> holds exactly when \<open>main_content\<close> is \<open>None\<close>.
  \<^verbatim>\<open>
  main_content = None
  for selector in content_selectors:
      try:
          elements = soup.select(selector)
          if elements:
              for elem in elements:
                  text_length = len(elem.get_text(strip=True))
                  if text_length > 100:
                      if not main_content or text_length > len(main_content.get_text(strip=True)):
                          main_content = elem
      except:
          continue
  \<close>
\<close>

definition content_selectors :: "string list" where
  \<open>content_selectors =
     [''main'', ''article'', ''[role="main"]'', ''.main-content'', ''#main-content'',
      ''.content'', ''#content'',
      ''.docs-content'', ''.documentation-content'', ''.markdown-body'', ''.doc-content'',
      ''.page-content'', ''.post-content'',
      ''.jss4-511'', ''[class*="makeStyles-content"]'', ''[class*="TechDocsContent"]'',
      ''[class*="MarkdownContent"]'', ''.MuiContainer-root article'',
      ''div[class*="jss"][class*="511"]'',
      ''.MuiContainer-root'', ''.MuiPaper-root'',
      ''div:has(> h1, > h2, > h3, > p, > ul, > ol, > pre)'']\<close>

definition consider_element :: "('e \<Rightarrow> string) \<Rightarrow> 'e option \<Rightarrow> 'e \<Rightarrow> 'e option" where
  \<comment> \<open>the body of the inner loop\<close>
  "consider_element get_text main_content elem =
     (let text_length = length (get_text elem)
      in if text_length > 100
         then (case main_content of
                 None \<Rightarrow> Some elem
               | Some best \<Rightarrow>
                   if text_length > length (get_text best) then Some elem else main_content)
         else main_content)"

fun scan_elements :: "('e \<Rightarrow> string) \<Rightarrow> 'e option \<Rightarrow> 'e list \<Rightarrow> 'e option" where
  "scan_elements get_text main_content [] = main_content"
| "scan_elements get_text main_content (elem # elements) =
     scan_elements get_text (consider_element get_text main_content elem) elements"

fun select_pass ::
  "(string \<Rightarrow> exn + 'e list) \<Rightarrow> ('e \<Rightarrow> string) \<Rightarrow> 'e option \<Rightarrow> string list \<Rightarrow> 'e option"
where
  "select_pass select get_text main_content [] = main_content"
| "select_pass select get_text main_content (selector # selectors) =
     (case select selector of
        Inl _ \<Rightarrow> select_pass select get_text main_content selectors
      | Inr elements \<Rightarrow>
          select_pass select get_text
            (if elements \<noteq> [] then scan_elements get_text main_content elements
             else main_content)
            selectors)"

definition matched :: "(string \<Rightarrow> exn + 'e list) \<Rightarrow> string list \<Rightarrow> 'e list" where
  \<comment> \<open>every element the inner loop sees, in the order it sees them: selector by selector,
      and for one selector in the order \<open>soup.select\<close> returns (document order)\<close>
  "matched select selectors =
     concat (map (\<lambda>selector. case select selector of Inl _ \<Rightarrow> [] | Inr elements \<Rightarrow> elements)
                 selectors)"

subsection \<open>The largest div\<close>

text \<open>
  \<open>parse_local_html.py\<close> 108-120; \<open>all_divs\<close> is \<open>soup.find_all('div')\<close>.
  \<^verbatim>\<open>
  if not main_content:
      all_divs = soup.find_all('div')
      text_divs = []
      for div in all_divs:
          text = div.get_text(strip=True)
          if len(text) > 200 and not any(skip in text[:100]
                                         for skip in ['Cookie', 'Accept', 'Login', 'Sign in']):
              text_divs.append((div, len(text)))
      if text_divs:
          text_divs.sort(key=lambda x: x[1], reverse=True)
          main_content = text_divs[0][0]
  \<close>
  \<open>list.sort\<close> is stable, and with \<open>reverse=True\<close> it still keeps elements of equal key in
  their original order: it sorts the reversed list and reverses the result.
\<close>

definition skip_markers :: "string list" where
  "skip_markers = [''Cookie'', ''Accept'', ''Login'', ''Sign in'']"

fun collect_text_divs :: "('e \<Rightarrow> string) \<Rightarrow> 'e list \<Rightarrow> ('e \<times> nat) list" where
  "collect_text_divs get_text [] = []"
| "collect_text_divs get_text (dv # all_divs) =
     (let text = get_text dv
      in if length text > 200 \<and> \<not> list_ex (\<lambda>skip. contains (take 100 text) skip) skip_markers
         then (dv, length text) # collect_text_divs get_text all_divs
         else collect_text_divs get_text all_divs)"

definition sort_reverse :: "('a \<Rightarrow> nat) \<Rightarrow> 'a list \<Rightarrow> 'a list" where
  \<comment> \<open>\<open>xs.sort(key=key, reverse=True)\<close>\<close>
  "sort_reverse key xs = rev (sort_key key (rev xs))"

definition largest_text_div :: "('e \<Rightarrow> string) \<Rightarrow> 'e list \<Rightarrow> 'e option" where
  "largest_text_div get_text all_divs =
     (case sort_reverse snd (collect_text_divs get_text all_divs) of
        [] \<Rightarrow> None
      | first # _ \<Rightarrow> Some (fst first))"

definition find_main_content ::
  "(string \<Rightarrow> exn + 'e list) \<Rightarrow> ('e \<Rightarrow> string) \<Rightarrow> 'e list \<Rightarrow> 'e option"
where
  \<comment> \<open>lines 94-120: the selector pass, then the largest div when it found nothing\<close>
  "find_main_content select get_text all_divs =
     (case select_pass select get_text None content_selectors of
        Some main_content \<Rightarrow> Some main_content
      | None \<Rightarrow> largest_text_div get_text all_divs)"

text \<open>
  The survivors of the largest-div pass in the words of the specification: more than 200
  characters of text, and none of the markers \<open>Cookie\<close>, \<open>Accept\<close>, \<open>Login\<close>, \<open>Sign in\<close>
  occurs as a substring of the first 100 characters.
\<close>

definition survivor :: "('e \<Rightarrow> string) \<Rightarrow> 'e \<Rightarrow> bool" where
  "survivor get_text d \<longleftrightarrow>
     200 < length (get_text d)
     \<and> (\<forall>marker \<in> {''Cookie'', ''Accept'', ''Login'', ''Sign in''}.
           \<not> (\<exists>pre post. take 100 (get_text d) = pre @ marker @ post))"

text \<open>
  What the selector pass returns from \<open>None\<close>, said without the loop: the first of the
  elements of greatest text length among those seen, that length being over 100.
\<close>

definition first_longest :: "('e \<Rightarrow> string) \<Rightarrow> 'e list \<Rightarrow> 'e \<Rightarrow> bool" where
  "first_longest gt xs w \<longleftrightarrow>
     100 < length (gt w)
     \<and> (\<forall>e \<in> set xs. length (gt e) \<le> length (gt w))
     \<and> (\<exists>i < length xs. xs ! i = w \<and> (\<forall>j < i. length (gt (xs ! j)) < length (gt w)))"

section \<open>The Scorer that takes the first selector match\<close>

text \<open>
  \<open>extract_content\<close> of \<open>save_and_parse_arc.py\<close> (110-127) and of
  \<open>webpage_to_llm_safari.py\<close> (106-118). \<open>select_one selector\<close> is
  \<open>soup.select_one(selector)\<close>, \<open>divs\<close> is \<open>soup.find_all('div')\<close>, \<open>body\<close> is \<open>soup.body\<close>.
  \<^verbatim>\<open>
  for selector in selectors:
      main_content = soup.select_one(selector)
      if main_content:
          break
  \<close>
\<close>

definition arc_selectors :: "string list" where
  \<open>arc_selectors =
     [''main'', ''article'', ''[role="main"]'', ''.docs-content'', ''.documentation-content'',
      ''.markdown-body'', ''.content-body'', ''#content'', ''.content'', ''div.content'',
      ''.doc-content'', ''.page-content'', ''.post-content'',
      ''.MuiContainer-root'', ''[class*="makeStyles-content"]'',
      ''[class*="docs"]'', ''[class*="documentation"]'', ''.main-content'', ''#main-content'']\<close>

definition safari_selectors :: "string list" where
  \<open>safari_selectors =
     [''main'', ''article'', ''[role="main"]'', ''.docs-content'', ''.documentation-content'',
      ''.markdown-body'', ''.content-body'', ''#content'', ''.content'', ''div.content'',
      ''.doc-content'', ''.page-content'', ''.post-content'']\<close>

fun first_match :: "(string \<Rightarrow> 'e option) \<Rightarrow> string list \<Rightarrow> 'e option" where
  "first_match select_one [] = None"
| "first_match select_one (selector # selectors) =
     (case select_one selector of
        Some main_content \<Rightarrow> Some main_content
      | None \<Rightarrow> first_match select_one selectors)"

fun max_by :: "('a \<Rightarrow> nat) \<Rightarrow> 'a \<Rightarrow> 'a list \<Rightarrow> 'a" where
  \<comment> \<open>\<open>max(xs, key=key)\<close> on a list that is not empty, \<open>best\<close> being its first element:
      the first of the elements of greatest key\<close>
  "max_by key best [] = best"
| "max_by key best (x # xs) = max_by key (if key x > key best then x else best) xs"

text \<open>
  \<open>save_and_parse_arc.py\<close>:
  \<^verbatim>\<open>
  if not main_content:
      divs = soup.find_all('div')
      if divs:
          text_divs = [(d, len(d.get_text(strip=True))) for d in divs]
          text_divs = [d for d in text_divs if d[1] > 100]
          if text_divs:
              main_content = max(text_divs, key=lambda x: x[1])[0]
  if not main_content:
      main_content = soup.body
  \<close>
\<close>

definition arc_main_content ::
  "(string \<Rightarrow> 'e option) \<Rightarrow> ('e \<Rightarrow> string) \<Rightarrow> 'e list \<Rightarrow> 'e option \<Rightarrow> 'e option"
where
  "arc_main_content select_one get_text divs body =
     (let main_content = first_match select_one arc_selectors;
          main_content =
            (case main_content of
               Some m \<Rightarrow> Some m
             | None \<Rightarrow>
                 if divs \<noteq> [] then
                   (let text_divs = map (\<lambda>d. (d, length (get_text d))) divs;
                        text_divs = filter (\<lambda>d. snd d > 100) text_divs
                    in case text_divs of
                         [] \<Rightarrow> None
                       | t # ts \<Rightarrow> Some (fst (max_by snd t ts)))
                 else None)
      in case main_content of Some m \<Rightarrow> Some m | None \<Rightarrow> body)"

text \<open>
  \<open>webpage_to_llm_safari.py\<close>:
  \<^verbatim>\<open>
  if not main_content:
      divs = soup.find_all('div')
      if divs:
          main_content = max(divs, key=lambda d: len(d.get_text(strip=True)))
  if not main_content:
      main_content = soup.body
  \<close>
\<close>

definition safari_main_content ::
  "(string \<Rightarrow> 'e option) \<Rightarrow> ('e \<Rightarrow> string) \<Rightarrow> 'e list \<Rightarrow> 'e option \<Rightarrow> 'e option"
where
  "safari_main_content select_one get_text divs body =
     (let main_content = first_match select_one safari_selectors;
          main_content =
            (case main_content of
               Some m \<Rightarrow> Some m
             | None \<Rightarrow>
                 (case divs of
                    [] \<Rightarrow> None
                  | d # ds \<Rightarrow> Some (max_by (\<lambda>d. length (get_text d)) d ds)))
      in case main_content of Some m \<Rightarrow> Some m | None \<Rightarrow> body)"

section \<open>The libraries\<close>

text \<open>
  The code of the repository calls \<open>open\<close>, \<open>requests\<close>, BeautifulSoup, markdownify and
  trafilatura. They are taken as parameters, gathered in one record. A parsed document is
  a value of type \<open>'soup\<close>; \<open>decompose\<close> changes the tree, so it returns the new one, and what
  is read from the tree afterwards is read from that one. Reading a file, fetching, parsing,
  the Markdown conversion and trafilatura can raise; \<open>soup.select\<close> can raise, and the
  source expects it to; reading the parsed tree cannot.
\<close>

datatype query =
    ByName string
  | ByClass string string
  | ById string string
  | ByAttr string string string

record response =
  raise_for_status :: "exn option"
  response_text :: string

record ('soup, 'e) libraries =
  read_text :: "string \<Rightarrow> exn + string"
  requests_get :: "string \<Rightarrow> bool \<Rightarrow> exn + response"
  BeautifulSoup :: "string \<Rightarrow> exn + 'soup"
  string_nodes :: "'soup \<Rightarrow> (node_kind \<times> string) list"
  soup_find :: "'soup \<Rightarrow> query \<Rightarrow> 'e option"
  soup_find_all :: "'soup \<Rightarrow> string \<Rightarrow> 'e list"
  soup_select :: "'soup \<Rightarrow> string \<Rightarrow> exn + 'e list"
  decompose :: "'soup \<Rightarrow> string list \<Rightarrow> 'soup"
  decompose_in :: "'soup \<Rightarrow> 'e \<Rightarrow> string list \<Rightarrow> 'soup"
  elem_get_text :: "'soup \<Rightarrow> 'e \<Rightarrow> string \<Rightarrow> string"
  tag_string :: "'soup \<Rightarrow> 'e \<Rightarrow> string option"
  tag_get :: "'soup \<Rightarrow> 'e \<Rightarrow> string \<Rightarrow> string option"
  markdownify :: "'soup \<Rightarrow> 'e \<Rightarrow> exn + string"
  trafilatura_extract :: "string \<Rightarrow> string option \<Rightarrow> exn + string option"

text \<open>
  \<^item> \<open>read_text L file_path\<close>: \<open>open(file_path, 'r', encoding='utf-8').read()\<close>;
  \<^item> \<open>requests_get L url verify_ssl\<close>: \<open>requests.get(url, headers=..., timeout=..., verify=verify_ssl)\<close>;
    \<open>raise_for_status r\<close> is the exception that \<open>r.raise_for_status()\<close> raises, if any;
  \<^item> \<open>BeautifulSoup L html\<close>: \<open>BeautifulSoup(html, 'html.parser')\<close>;
  \<^item> \<open>string_nodes L soup\<close>: the string nodes of the tree, in document order;
  \<^item> \<open>soup_find L soup (ByName n)\<close>: \<open>soup.find(n)\<close>, also written \<open>soup.title\<close>, \<open>soup.body\<close>;
    \<open>ByClass n c\<close>: \<open>soup.find(n, class_=c)\<close>; \<open>ById n i\<close>: \<open>soup.find(n, id=i)\<close>;
    \<open>ByAttr n k v\<close>: \<open>soup.find(n, attrs={k: v})\<close>;
  \<^item> \<open>soup_find_all L soup n\<close>: \<open>soup.find_all(n)\<close>; \<open>soup_select L soup s\<close>: \<open>soup.select(s)\<close>;
  \<^item> \<open>decompose L soup names\<close>: \<open>for element in soup(names): element.decompose()\<close>;
    \<open>decompose_in L soup e names\<close>: \<open>for elem in e.find_all(names): elem.decompose()\<close>;
  \<^item> \<open>elem_get_text L soup e sep\<close>: \<open>e.get_text(separator=sep, strip=True)\<close>;
  \<^item> \<open>tag_string L soup e\<close>: \<open>e.string\<close>; \<open>tag_get L soup e k\<close>: the attribute \<open>k\<close> of \<open>e\<close>;
  \<^item> \<open>markdownify L soup e\<close>: \<open>md(str(e), heading_style="ATX", bullets="-")\<close>;
  \<^item> \<open>trafilatura_extract L html url\<close>: \<open>trafilatura.extract(html, output_format='markdown',
    include_links=True, include_images=False, include_tables=True, deduplicate=True, url=url)\<close>.
\<close>

section \<open>Runs\<close>

text \<open>
  A run of an entry point ends with a string or with an exception, and it enters some of the
  three extraction methods on its way. The list of the methods entered is not a value of the
  program: it is kept to say which code ran.
\<close>

datatype stage = Engine | Scorer | RawText

type_synonym 'a run = "(exn + 'a) \<times> stage list"

definition call :: "exn + 'a \<Rightarrow> 'a run" where
  \<comment> \<open>a call that may raise\<close>
  "call r = (r, [])"

definition enter :: "stage \<Rightarrow> unit run" where
  "enter s = (Inr (), [s])"

definition and_then :: "'a run \<Rightarrow> ('a \<Rightarrow> 'b run) \<Rightarrow> 'b run" where
  \<comment> \<open>sequencing: an exception ends the run\<close>
  "and_then r f =
     (case r of
        (Inl e, entered) \<Rightarrow> (Inl e, entered)
      | (Inr x, entered) \<Rightarrow> (case f x of (y, entered') \<Rightarrow> (y, entered @ entered')))"

definition or_else :: "'a option \<Rightarrow> 'a option \<Rightarrow> 'a option" where
  \<comment> \<open>\<open>a or b\<close> on values that are \<open>None\<close> or a \<open>Tag\<close>\<close>
  "or_else a b = (case a of Some x \<Rightarrow> Some x | None \<Rightarrow> b)"

text \<open>
  \<open>extract_content\<close> of \<open>webpage_to_llm_js.py\<close> (83-91), the Selenium front end; the same
  chain stands in \<open>webpage_to_llm_cookies.py\<close> (173-181). \<open>lookup q\<close> is \<open>soup.find\<close> with the
  arguments \<open>q\<close>.
  \<^verbatim>\<open>
  main_content = (
      soup.find('main') or
      soup.find('article') or
      soup.find('div', class_='content') or
      soup.find('div', id='content') or
      soup.find('div', class_='docs-content') or
      soup.find('div', class_='markdown-body') or
      soup.body
  )
  \<close>
\<close>

definition js_main_content :: "(query \<Rightarrow> 'e option) \<Rightarrow> 'e option" where
  "js_main_content lookup =
     or_else (lookup (ByName ''main''))
    (or_else (lookup (ByName ''article''))
    (or_else (lookup (ByClass ''div'' ''content''))
    (or_else (lookup (ById ''div'' ''content''))
    (or_else (lookup (ByClass ''div'' ''docs-content''))
    (or_else (lookup (ByClass ''div'' ''markdown-body''))
             (lookup (ByName ''body'')))))))"

definition js_queries :: "query list" where
  \<comment> \<open>the lookups of that chain before \<open>soup.body\<close>, in order\<close>
  "js_queries =
     [ByName ''main'', ByName ''article'', ByClass ''div'' ''content'', ById ''div'' ''content'',
      ByClass ''div'' ''docs-content'', ByClass ''div'' ''markdown-body'']"

definition str_opt :: "string option \<Rightarrow> string" where
  \<comment> \<open>what an f-string inserts for a value that is a \<open>str\<close> or \<open>None\<close>\<close>
  "str_opt v = (case v of None \<Rightarrow> ''None'' | Some s \<Rightarrow> s)"

definition separator :: string where
  \<comment> \<open>\<open>"\n---\n"\<close>\<close>
  "separator = [newline] @ ''---'' @ [newline]"

section \<open>The file-based flow\<close>

text \<open>\<open>parse_html_file\<close> of \<open>parse_local_html.py\<close>, method by method.\<close>

definition method1 ::
  "('soup, 'e) libraries \<Rightarrow> string \<Rightarrow> string option \<Rightarrow> string \<Rightarrow> string option run"
where
  \<comment> \<open>lines 39-51\<close>
  "method1 L html url method =
     (if method \<in> set [''trafilatura'', ''auto'']
      then and_then (enter Engine) (\<lambda>_. call (trafilatura_extract L html url))
      else (Inr None, []))"

definition method2 ::
  "('soup, 'e) libraries \<Rightarrow> 'soup \<Rightarrow> string option \<Rightarrow> string \<Rightarrow> ('soup \<times> string option) run"
where
  \<comment> \<open>lines 54-128\<close>
  "method2 L soup content method =
     (if \<not> truthy content \<and> method \<in> set [''beautifulsoup'', ''auto'']
      then and_then (enter Scorer) (\<lambda>_.
        let soup = decompose L soup
                     [''script'', ''style'', ''nav'', ''header'', ''footer'', ''aside'', ''button''];
            main_content = find_main_content (soup_select L soup) (\<lambda>e. elem_get_text L soup e [])
                             (soup_find_all L soup ''div'')
        in case main_content of
             None \<Rightarrow> (Inr (soup, content), [])
           | Some m \<Rightarrow>
               and_then (call (markdownify L soup m)) (\<lambda>content.
                 (Inr (soup, Some (clean_up content)), [])))
      else (Inr (soup, content), []))"

definition method3 ::
  "('soup, 'e) libraries \<Rightarrow> 'soup \<Rightarrow> string option \<Rightarrow> string option run"
where
  \<comment> \<open>lines 131-150\<close>
  "method3 L soup content =
     (if \<not> truthy content
      then and_then (enter RawText) (\<lambda>_.
        case soup_find L soup (ByName ''body'') of
          None \<Rightarrow> (Inr content, [])
        | Some body \<Rightarrow>
            let soup = decompose_in L soup body
                         [''script'', ''style'', ''nav'', ''header'', ''footer''];
                text = elem_get_text L soup body [newline];
                lines = py_split newline text;
                cleaned_lines =
                  filter (\<lambda>line. line \<noteq> [] \<and> length line > 2
                                  \<and> \<not> startswith line ''MuiTypography'')
                         (map py_strip lines)
            in (Inr (Some (py_join [newline] cleaned_lines)), []))
      else (Inr content, []))"

definition format_output :: "string option \<Rightarrow> string option \<Rightarrow> string option \<Rightarrow> string" where
  \<comment> \<open>lines 153-160\<close>
  "format_output title url content =
     py_join [newline]
       ([''# '' @ str_opt title]
        @ (case url of None \<Rightarrow> [] | Some u \<Rightarrow> if u \<noteq> [] then [''Source: '' @ u] else [])
        @ [separator]
        @ [case content of
             None \<Rightarrow> ''No content extracted''
           | Some c \<Rightarrow> if c \<noteq> [] then c else ''No content extracted''])"

definition parse_html_file ::
  "('soup, 'e) libraries \<Rightarrow> string \<Rightarrow> string \<Rightarrow> string run"
where
  "parse_html_file L file_path method =
     and_then (call (read_text L file_path)) (\<lambda>html.
     and_then (call (BeautifulSoup L html)) (\<lambda>soup.
       let url = recover_url (string_nodes L soup);
           title = (case soup_find L soup (ByName ''title'') of
                      Some t \<Rightarrow> tag_string L soup t
                    | None \<Rightarrow> Some ''Untitled'')
       in and_then (method1 L html url method) (\<lambda>content.
          and_then (method2 L soup content method) (\<lambda>(soup, content).
          and_then (method3 L soup content) (\<lambda>content.
            (Inr (format_output title url content), []))))))"

section \<open>The network flow\<close>

text \<open>\<open>webpage_to_llm.py\<close>.\<close>

definition fetch_webpage :: "('soup, 'e) libraries \<Rightarrow> string \<Rightarrow> bool \<Rightarrow> exn + string" where
  "fetch_webpage L url verify_ssl =
     (case requests_get L url verify_ssl of
        Inl e \<Rightarrow> Inl e
      | Inr response \<Rightarrow>
          (case raise_for_status response of
             Some e \<Rightarrow> Inl e
           | None \<Rightarrow> Inr (response_text response)))"

definition extract_with_trafilatura ::
  "('soup, 'e) libraries \<Rightarrow> string \<Rightarrow> string \<Rightarrow> exn + string option"
where
  "extract_with_trafilatura L html url = trafilatura_extract L html (Some url)"

definition extract_with_beautifulsoup ::
  "('soup, 'e) libraries \<Rightarrow> string \<Rightarrow> string \<Rightarrow> exn + string option"
where
  "extract_with_beautifulsoup L html url =
     (case BeautifulSoup L html of
        Inl e \<Rightarrow> Inl e
      | Inr soup \<Rightarrow>
          let soup = decompose L soup
                       [''script'', ''style'', ''nav'', ''header'', ''footer'', ''aside''];
              main_content =
                or_else (soup_find L soup (ByName ''main''))
               (or_else (soup_find L soup (ByName ''article''))
               (or_else (soup_find L soup (ByClass ''div'' ''content''))
               (or_else (soup_find L soup (ById ''div'' ''content''))
                        (soup_find L soup (ByName ''body'')))))
          in case main_content of
               None \<Rightarrow> Inr None
             | Some m \<Rightarrow>
                 (case markdownify L soup m of
                    Inl e \<Rightarrow> Inl e
                  | Inr markdown \<Rightarrow> Inr (Some (clean_up markdown))))"

record metadata =
  meta_url :: string
  meta_title :: "string option"
  meta_description :: "string option"

definition extract_metadata :: "('soup, 'e) libraries \<Rightarrow> 'soup \<Rightarrow> string \<Rightarrow> metadata" where
  "extract_metadata L soup u =
     \<lparr> meta_url = u,
       meta_title = (case soup_find L soup (ByName ''title'') of
                  Some t \<Rightarrow> tag_string L soup t
                | None \<Rightarrow> None),
       meta_description = (case soup_find L soup (ByAttr ''meta'' ''name'' ''description'') of
                        Some meta_desc \<Rightarrow>
                          Some (case tag_get L soup meta_desc ''content'' of
                                  Some v \<Rightarrow> v
                                | None \<Rightarrow> [])
                      | None \<Rightarrow> None) \<rparr>"

definition process_webpage_try ::
  "('soup, 'e) libraries \<Rightarrow> string \<Rightarrow> string \<Rightarrow> bool \<Rightarrow> string run"
where
  \<comment> \<open>the body of the \<open>try\<close>, lines 100-132\<close>
  "process_webpage_try L u method verify_ssl =
     and_then (call (fetch_webpage L u verify_ssl)) (\<lambda>html.
     and_then (call (BeautifulSoup L html)) (\<lambda>soup.
       let metadata = extract_metadata L soup u
       in and_then
            (if method \<in> set [''trafilatura'', ''auto'']
             then and_then (enter Engine) (\<lambda>_. call (extract_with_trafilatura L html u))
             else (Inr None, []))
            (\<lambda>content.
          and_then
            (if \<not> truthy content \<and> method \<in> set [''beautifulsoup'', ''auto'']
             then and_then (enter Scorer) (\<lambda>_. call (extract_with_beautifulsoup L html u))
             else (Inr content, []))
            (\<lambda>content.
          if \<not> truthy content
          then (Inl (ValueError ''Failed to extract content from webpage''), [])
          else
            (Inr (py_join [newline]
                    ([''# '' @ (if truthy (meta_title metadata) then str_opt (meta_title metadata)
                                else ''Untitled''),
                      ''Source: '' @ u]
                     @ (if truthy (meta_description metadata)
                        then [''Description: '' @ str_opt (meta_description metadata)] else [])
                     @ [separator]
                     @ [str_opt content])), [])))))"

definition process_webpage ::
  "('soup, 'e) libraries \<Rightarrow> string \<Rightarrow> string \<Rightarrow> bool \<Rightarrow> string run"
where
  \<comment> \<open>lines 99-137: the two handlers, \<open>requests.RequestException\<close> first\<close>
  "process_webpage L u method verify_ssl =
     (case process_webpage_try L u method verify_ssl of
        (Inr result, entered) \<Rightarrow> (Inr result, entered)
      | (Inl (RequestException m), entered) \<Rightarrow> (Inr (''Error fetching webpage: '' @ m), entered)
      | (Inl e, entered) \<Rightarrow> (Inr (''Error processing webpage: '' @ str_exn e), entered))"

section \<open>Example documents\<close>

text \<open>
  Elements are numbered. \<open>main\<close> matches elements 1 and 2, \<open>article\<close> matches element 3,
  the selector \<open>.content\<close> raises, every other selector matches nothing. Element 1 has 120
  characters of text, elements 2 and 3 have 150 each, element 4 has exactly 100 and element
  5 has 101.
\<close>

definition example_select :: "string \<Rightarrow> exn + nat list" where
  "example_select selector =
     (if selector = ''main'' then Inr [1, 2]
      else if selector = ''article'' then Inr [3]
      else if selector = ''.content'' then Inl (LibraryError ''invalid selector'')
      else Inr [])"

definition example_text :: "nat \<Rightarrow> string" where
  "example_text e =
     (if e = 1 then replicate 120 CHR ''a''
      else if e = 2 \<or> e = 3 then replicate 150 CHR ''b''
      else if e = 4 then replicate 100 CHR ''c''
      else if e = 5 then replicate 101 CHR ''d''
      else [])"


definition floor_select :: "nat \<Rightarrow> string \<Rightarrow> exn + nat list" where
  "floor_select e selector = (if selector = ''article'' then Inr [e] else Inr [])"

text \<open>
  Divs 10, 11 and 12: div 10 is a cookie banner of 436 characters, div 11 has 250 characters
  and div 12 has 150.
\<close>

definition div_text :: "nat \<Rightarrow> string" where
  "div_text d =
     (if d = 10 then ''Cookie banner: accept all cookies...'' @ replicate 400 CHR ''x''
      else if d = 11 then replicate 250 CHR ''y''
      else if d = 12 then replicate 150 CHR ''z''
      else [])"

definition no_select :: "string \<Rightarrow> exn + nat list" where
  "no_select selector = Inr []"

definition only_main :: "string \<Rightarrow> nat option" where
  "only_main selector = (if selector = ''main'' then Some 1 else None)"

definition no_select_one :: "string \<Rightarrow> nat option" where
  "no_select_one selector = None"

text \<open>
  A library environment for the page
  \<open><html><head><title>Docs</title></head><body><main><h1>Hi</h1><p>World</p></main></body></html>\<close>:
  the document is soup 0, its title element 1, its body element 2, its \<open>main\<close> element 3.
  In \<open>empty_lib\<close> the same calls find nothing, and in \<open>undecodable_lib\<close> the file is not
  valid UTF-8, so reading it raises.
\<close>

definition example_html :: string where
  "example_html =
     ''<html><head><title>Docs</title></head><body><main><h1>Hi</h1><p>World</p></main></body></html>''"

definition example_markdown :: string where
  "example_markdown = ''# Hi'' @ [newline, newline] @ ''World''"

definition example_lib :: "(nat, nat) libraries" where
  "example_lib =
     \<lparr> read_text = (\<lambda>file_path. Inr example_html),
       requests_get = (\<lambda>u verify_ssl.
         Inr \<lparr> raise_for_status = None, response_text = example_html \<rparr>),
       BeautifulSoup = (\<lambda>html. Inr 0),
       string_nodes = (\<lambda>soup. [(TextNode, ''Docs''), (TextNode, ''Hi''), (TextNode, ''World'')]),
       soup_find = (\<lambda>soup q.
         if q = ByName ''title'' then Some 1
         else if q = ByName ''body'' then Some 2
         else if q = ByName ''main'' then Some 3
         else None),
       soup_find_all = (\<lambda>soup name. []),
       soup_select = (\<lambda>soup selector. if selector = ''main'' then Inr [3] else Inr []),
       decompose = (\<lambda>soup names. soup),
       decompose_in = (\<lambda>soup e names. soup),
       elem_get_text = (\<lambda>soup e sep. if e = 1 then ''Docs'' else ''Hi'' @ sep @ ''World''),
       tag_string = (\<lambda>soup e. if e = 1 then Some ''Docs'' else None),
       tag_get = (\<lambda>soup e k. None),
       markdownify = (\<lambda>soup e. Inr example_markdown),
       trafilatura_extract = (\<lambda>html u. Inr (Some example_markdown)) \<rparr>"



definition body_only :: "query \<Rightarrow> nat option" where
  \<comment> \<open>a document in which \<open>soup.find\<close> finds the body, element 0, and nothing else of what
      the front ends look for\<close>
  "body_only q = (if q = ByName ''body'' then Some 0 else None)"

section \<open>Facts about strings\<close>

lemma py_split_nonempty: "py_split sep s \<noteq> []"
  by (induction s) (auto split: list.splits)

lemma py_split_no_sep: "l \<in> set (py_split sep s) \<Longrightarrow> sep \<notin> set l"
proof (induction s arbitrary: l)
  case Nil
  then show ?case by simp
next
  case (Cons c cs)
  show ?case
  proof (cases "c = sep")
    case True
    with Cons show ?thesis by auto
  next
    case False
    obtain k ks where ks: "py_split sep cs = k # ks"
      using py_split_nonempty [of sep cs] by (cases "py_split sep cs") auto
    with Cons.prems False have "l = c # k \<or> l \<in> set ks" by auto
    then show ?thesis
    proof
      assume "l = c # k"
      moreover have "sep \<notin> set k" using Cons.IH [of k] ks by simp
      ultimately show ?thesis using False by auto
    next
      assume "l \<in> set ks"
      then show ?thesis using Cons.IH [of l] ks by simp
    qed
  qed
qed

lemma py_split_one: "sep \<notin> set x \<Longrightarrow> py_split sep x = [x]"
  by (induction x) auto

lemma py_split_append:
  "sep \<notin> set x \<Longrightarrow> py_split sep (x @ sep # rest) = x # py_split sep rest"
  by (induction x) auto

lemma py_split_join:
  "ls \<noteq> [] \<Longrightarrow> \<forall>l \<in> set ls. sep \<notin> set l \<Longrightarrow> py_split sep (py_join [sep] ls) = ls"
proof (induction ls)
  case Nil
  then show ?case by simp
next
  case (Cons x xs)
  show ?case
  proof (cases xs)
    case Nil
    then show ?thesis using Cons.prems by (simp add: py_split_one)
  next
    case (Cons y ys)
    have "py_split sep (py_join [sep] xs) = xs"
      using Cons.IH Cons.prems Cons by simp
    then show ?thesis using Cons.prems Cons by (simp add: py_split_append)
  qed
qed

lemma dropWhile_keeps_last:
  "\<not> P a \<Longrightarrow> \<exists>zs. dropWhile P (ws @ [a]) = zs @ [a]"
  by (induction ws) auto

lemma dropWhile_rev_dropWhile:
  "dropWhile P (rev (dropWhile P (rev (dropWhile P s)))) = rev (dropWhile P (rev (dropWhile P s)))"
proof (cases "dropWhile P s")
  case Nil
  then show ?thesis by (simp only: rev.simps dropWhile.simps)
next
  case (Cons a as)
  then have na: "\<not> P a" by (metis hd_dropWhile list.distinct(1) list.sel(1))
  obtain zs where "dropWhile P (rev as @ [a]) = zs @ [a]"
    using dropWhile_keeps_last [of P a "rev as"] na by blast
  then have "rev (dropWhile P (rev (a # as))) = a # rev zs" by simp
  then show ?thesis using Cons na by simp
qed

lemma py_strip_idem: "py_strip (py_strip s) = py_strip s"
proof -
  let ?t = "rev (dropWhile isspace (rev (dropWhile isspace s)))"
  have 1: "dropWhile isspace ?t = ?t" by (rule dropWhile_rev_dropWhile)
  have "py_strip (py_strip s) = rev (dropWhile isspace (rev (dropWhile isspace ?t)))"
    by (simp add: py_strip_def)
  also have "\<dots> = rev (dropWhile isspace (dropWhile isspace (rev (dropWhile isspace s))))"
    by (simp add: 1)
  also have "\<dots> = ?t" by simp
  finally show ?thesis by (simp add: py_strip_def)
qed

lemma py_strip_subset: "set (py_strip s) \<subseteq> set s"
proof -
  have "set (py_strip s) = set (dropWhile isspace (rev (dropWhile isspace s)))"
    by (simp add: py_strip_def)
  also have "\<dots> \<subseteq> set (rev (dropWhile isspace s))" by (rule set_dropWhileD [THEN subsetI])
  also have "\<dots> \<subseteq> set s" using set_dropWhileD by fastforce
  finally show ?thesis .
qed

section \<open>The clean-up is idempotent\<close>

text \<open>
  C9. The whitespace-collapse step of the Markdown normaliser (split on newlines, strip each
  line, drop the empty lines, join with newlines) is idempotent: applied to its own output it
  returns that output.
\<close>

theorem clean_up_idempotent: "clean_up (clean_up s) = clean_up s"
proof -
  define ls where "ls = filter (\<lambda>line. line \<noteq> []) (map py_strip (py_split newline s))"
  have out: "clean_up s = py_join [newline] ls"
    by (simp add: clean_up_def ls_def)
  show ?thesis
  proof (cases "ls = []")
    case True
    then have "clean_up s = []" using out by simp
    then show ?thesis by (simp add: clean_up_def py_strip_def)
  next
    case False
    have nonl: "\<forall>l \<in> set ls. newline \<notin> set l"
    proof
      fix l assume "l \<in> set ls"
      then obtain k where k: "k \<in> set (py_split newline s)" and l: "l = py_strip k"
        by (auto simp: ls_def)
      from k have "newline \<notin> set k" by (rule py_split_no_sep)
      then show "newline \<notin> set l" using l py_strip_subset [of k] by auto
    qed
    have stripped: "map py_strip ls = ls"
    proof (rule map_idI)
      fix l assume "l \<in> set ls"
      then obtain k where "l = py_strip k" by (auto simp: ls_def)
      then show "py_strip l = l" by (simp add: py_strip_idem)
    qed
    have "py_split newline (clean_up s) = ls"
      using out py_split_join [OF False nonl] by simp
    then have "clean_up (clean_up s) = py_join [newline] (filter (\<lambda>line. line \<noteq> []) ls)"
      by (simp add: clean_up_def stripped)
    also have "filter (\<lambda>line. line \<noteq> []) ls = ls"
      by (simp add: ls_def)
    finally show ?thesis using out by simp
  qed
qed

section \<open>The selector pass\<close>

lemma scan_elements_append:
  "scan_elements gt mc (xs @ ys) = scan_elements gt (scan_elements gt mc xs) ys"
  by (induction xs arbitrary: mc) auto

lemma scan_elements_snoc:
  "scan_elements gt mc (xs @ [x]) = consider_element gt (scan_elements gt mc xs) x"
  by (simp add: scan_elements_append)

lemma select_pass_matched:
  "select_pass sel gt mc sels = scan_elements gt mc (matched sel sels)"
  by (induction sels arbitrary: mc)
     (auto simp: matched_def scan_elements_append split: sum.splits)

lemma scan_elements_None:
  "(scan_elements gt None xs = None) = (\<forall>e \<in> set xs. length (gt e) \<le> 100)"
proof (induction xs rule: rev_induct)
  case Nil
  then show ?case by simp
next
  case (snoc x xs)
  then show ?case
    by (auto simp: scan_elements_snoc consider_element_def Let_def split: option.splits)
qed

lemma scan_elements_Some:
  "scan_elements gt None xs = Some w \<Longrightarrow> first_longest gt xs w"
proof (induction xs arbitrary: w rule: rev_induct)
  case Nil
  then show ?case by simp
next
  case (snoc x xs)
  show ?case
  proof (cases "scan_elements gt None xs")
    case None
    then have small: "\<forall>e \<in> set xs. length (gt e) \<le> 100"
      by (simp add: scan_elements_None)
    from snoc.prems None have w: "w = x" and big: "100 < length (gt x)"
      by (auto simp: scan_elements_snoc consider_element_def Let_def split: if_splits)
    have "\<forall>e \<in> set xs. length (gt e) < length (gt x)"
      using small big by fastforce
    then have "\<forall>j < length xs. length (gt ((xs @ [x]) ! j)) < length (gt x)"
      by (auto simp: nth_append)
    then have "(xs @ [x]) ! length xs = w \<and> (\<forall>j < length xs. length (gt ((xs @ [x]) ! j)) < length (gt w))"
      using w by simp
    then have "\<exists>i < length (xs @ [x]). (xs @ [x]) ! i = w \<and> (\<forall>j < i. length (gt ((xs @ [x]) ! j)) < length (gt w))"
      by (metis length_append_singleton lessI)
    moreover have "\<forall>e \<in> set (xs @ [x]). length (gt e) \<le> length (gt w)"
      using small big w by auto
    ultimately show ?thesis using big w by (simp add: first_longest_def)
  next
    case (Some b)
    then have fb: "first_longest gt xs b" by (rule snoc.IH)
    then obtain i where i: "i < length xs" "xs ! i = b"
      "\<forall>j < i. length (gt (xs ! j)) < length (gt b)"
      by (auto simp: first_longest_def)
    show ?thesis
    proof (cases "100 < length (gt x) \<and> length (gt b) < length (gt x)")
      case True
      with snoc.prems Some have w: "w = x"
        by (auto simp: scan_elements_snoc consider_element_def Let_def)
      have all: "\<forall>e \<in> set xs. length (gt e) < length (gt x)"
        using fb True by (fastforce simp: first_longest_def)
      then have "\<forall>j < length xs. length (gt ((xs @ [x]) ! j)) < length (gt x)"
        by (auto simp: nth_append)
      then have "(xs @ [x]) ! length xs = w \<and> (\<forall>j < length xs. length (gt ((xs @ [x]) ! j)) < length (gt w))"
        using w by simp
      then have "\<exists>i < length (xs @ [x]). (xs @ [x]) ! i = w \<and> (\<forall>j < i. length (gt ((xs @ [x]) ! j)) < length (gt w))"
        by (metis length_append_singleton lessI)
      moreover have "\<forall>e \<in> set (xs @ [x]). length (gt e) \<le> length (gt w)"
        using all w by (auto simp: less_imp_le)
      ultimately show ?thesis using True w by (simp add: first_longest_def)
    next
      case False
      with snoc.prems Some have w: "w = b"
        by (auto simp: scan_elements_snoc consider_element_def Let_def split: if_splits)
      have bigb: "100 < length (gt b)" using fb by (simp add: first_longest_def)
      have "length (gt x) \<le> length (gt b)" using False bigb by auto
      then have "\<forall>e \<in> set (xs @ [x]). length (gt e) \<le> length (gt w)"
        using fb w by (auto simp: first_longest_def)
      moreover have "i < length (xs @ [x]) \<and> (xs @ [x]) ! i = w
          \<and> (\<forall>j < i. length (gt ((xs @ [x]) ! j)) < length (gt w))"
        using i w by (auto simp: nth_append)
      ultimately show ?thesis using bigb w unfolding first_longest_def by blast
    qed
  qed
qed

text \<open>
  C10. The tie-break of the score-everything Scorer. An element replaces the running best
  only when its text is strictly longer, so the element returned is the one seen first among
  the elements of greatest text length: it stands at some position \<open>i\<close> of the sequence of
  elements seen (selector by selector, and in document order for one selector), no element
  seen is longer, and every element seen before position \<open>i\<close> is strictly shorter. A later
  element of the same length never wins.
\<close>

theorem select_pass_first_of_longest:
  "select_pass select get_text None selectors = Some w \<Longrightarrow>
     100 < length (get_text w)
     \<and> (\<forall>e \<in> set (matched select selectors). length (get_text e) \<le> length (get_text w))
     \<and> (\<exists>i < length (matched select selectors).
           matched select selectors ! i = w
           \<and> (\<forall>j < i. length (get_text (matched select selectors ! j)) < length (get_text w)))"
  using scan_elements_Some [of get_text "matched select selectors" w]
  by (simp add: select_pass_matched first_longest_def)

theorem select_pass_first_of_longest_witness:
  "select_pass example_select example_text None [''main'', ''article''] = Some 2
   \<and> matched example_select [''main'', ''article''] = [1, 2, 3]
   \<and> length (example_text 2) = length (example_text 3)
   \<and> (\<exists>i < length (matched example_select [''main'', ''article'']).
         matched example_select [''main'', ''article''] ! i = 2
         \<and> (\<forall>j < i. length (example_text (matched example_select [''main'', ''article''] ! j))
                     < length (example_text 2)))"
proof -
  have r: "select_pass example_select example_text None [''main'', ''article''] = Some 2"
    by (simp add: example_select_def example_text_def consider_element_def)
  have m: "matched example_select [''main'', ''article''] = [1, 2, 3]"
    by (simp add: matched_def example_select_def)
  have l: "length (example_text 2) = length (example_text 3)"
    by (simp add: example_text_def)
  show ?thesis
    using select_pass_first_of_longest [OF r] r m l by blast
qed

text \<open>
  C4. The floor of the selector pass is strictly more than 100 characters: whatever the pass
  returns has more than 100 characters of text, so an element with exactly 100 is never
  returned, and an element with 101 characters that is the only match is returned.
\<close>

theorem select_pass_threshold:
  "(\<forall>w. select_pass select get_text None selectors = Some w \<longrightarrow> 100 < length (get_text w))
   \<and> (length (get_text e) = 100 \<longrightarrow> select_pass select get_text None selectors \<noteq> Some e)
   \<and> (length (get_text e) = 101 \<and> set (matched select selectors) = {e}
        \<longrightarrow> select_pass select get_text None selectors = Some e)"
proof (intro conjI allI impI)
  fix w assume "select_pass select get_text None selectors = Some w"
  then show "100 < length (get_text w)"
    using scan_elements_Some [of get_text "matched select selectors" w]
    by (simp add: select_pass_matched first_longest_def)
next
  assume e: "length (get_text e) = 100"
  show "select_pass select get_text None selectors \<noteq> Some e"
  proof
    assume "select_pass select get_text None selectors = Some e"
    then have "100 < length (get_text e)"
      using scan_elements_Some [of get_text "matched select selectors" e]
      by (simp add: select_pass_matched first_longest_def)
    with e show False by simp
  qed
next
  assume a: "length (get_text e) = 101 \<and> set (matched select selectors) = {e}"
  then have "scan_elements get_text None (matched select selectors) \<noteq> None"
    by (simp add: scan_elements_None)
  then obtain w where w: "scan_elements get_text None (matched select selectors) = Some w"
    by auto
  then have "first_longest get_text (matched select selectors) w"
    by (rule scan_elements_Some)
  then have "w \<in> set (matched select selectors)"
    by (auto simp: first_longest_def)
  with a have "w = e" by simp
  with w show "select_pass select get_text None selectors = Some e"
    by (simp add: select_pass_matched)
qed

theorem select_pass_threshold_witness:
  "length (example_text 4) = 100
   \<and> select_pass (floor_select 4) example_text None content_selectors = None
   \<and> length (example_text 5) = 101
   \<and> set (matched (floor_select 5) content_selectors) = {5}
   \<and> select_pass (floor_select 5) example_text None content_selectors = Some 5"
proof -
  have l4: "length (example_text 4) = 100" and l5: "length (example_text 5) = 101"
    by (simp_all add: example_text_def)
  have m5: "set (matched (floor_select 5) content_selectors) = {5}"
    by (simp add: matched_def floor_select_def content_selectors_def)
  have n4: "select_pass (floor_select 4) example_text None content_selectors = None"
    by (simp add: floor_select_def content_selectors_def example_text_def consider_element_def)
  show ?thesis
    using select_pass_threshold [of "floor_select 5" example_text content_selectors 5]
          select_pass_threshold [of "floor_select 4" example_text content_selectors 4]
          l4 l5 m5 n4 by blast
qed




section \<open>The length limit\<close>

text \<open>
  C8. For a configured maximum length \<open>m > 0\<close> and an assembled output \<open>s\<close> longer than \<open>m\<close>,
  the final output is the first \<open>m\<close> characters of \<open>s\<close> followed by the suffix
  \<open>"\n\n[Content truncated...]"\<close>: its length is \<open>m\<close> plus the length of the suffix (24), and it
  ends with the suffix. An output of at most \<open>m\<close> characters is returned unchanged.
\<close>

theorem apply_length_limit_truncates:
  "0 < m \<Longrightarrow>
     (m < int (length s) \<longrightarrow>
        apply_length_limit (Some m) s = take (nat m) s @ truncated_suffix
        \<and> length (apply_length_limit (Some m) s) = nat m + length truncated_suffix
        \<and> length truncated_suffix = 24
        \<and> drop (nat m) (apply_length_limit (Some m) s) = truncated_suffix)
     \<and> (int (length s) \<le> m \<longrightarrow> apply_length_limit (Some m) s = s)"
  by (auto simp: apply_length_limit_def slice_to_def truncated_suffix_def)

theorem apply_length_limit_truncates_witness:
  "(0::int) < 50
   \<and> apply_length_limit (Some 50) (replicate 60 CHR ''x'')
       = replicate 50 CHR ''x'' @ [CHR 0x0A, CHR 0x0A] @ ''[Content truncated...]''
   \<and> length (apply_length_limit (Some 50) (replicate 60 CHR ''x'')) = 50 + 24
   \<and> apply_length_limit (Some 50) ''short'' = ''short''"
  using apply_length_limit_truncates [of 50 "replicate 60 CHR ''x''"]
        apply_length_limit_truncates [of 50 "''short''"]
  by (simp add: truncated_suffix_def newline_def)

section \<open>The largest div\<close>

lemma startswith_iff: "startswith s p \<longleftrightarrow> (\<exists>post. s = p @ post)"
  by (induction s p rule: startswith.induct) auto

lemma contains_iff: "contains s p \<longleftrightarrow> (\<exists>pre post. s = pre @ p @ post)"
proof (induction s)
  case Nil
  then show ?case by auto
next
  case (Cons c cs)
  show ?case
  proof
    assume "contains (c # cs) p"
    then consider "startswith (c # cs) p" | "contains cs p" by auto
    then show "\<exists>pre post. c # cs = pre @ p @ post"
    proof cases
      case 1
      then obtain post where "c # cs = p @ post" by (auto simp: startswith_iff)
      then have "c # cs = [] @ p @ post" by simp
      then show ?thesis by blast
    next
      case 2
      then obtain pre post where "cs = pre @ p @ post" using Cons.IH by auto
      then have "c # cs = (c # pre) @ p @ post" by simp
      then show ?thesis by blast
    qed
  next
    assume "\<exists>pre post. c # cs = pre @ p @ post"
    then obtain pre post where e: "c # cs = pre @ p @ post" by auto
    show "contains (c # cs) p"
    proof (cases pre)
      case Nil
      then have "startswith (c # cs) p" using e by (auto simp: startswith_iff)
      then show ?thesis by simp
    next
      case (Cons a pre')
      then have "cs = pre' @ p @ post" using e by simp
      then have "contains cs p" using Cons.IH by blast
      then show ?thesis by simp
    qed
  qed
qed

lemma no_marker_iff:
  "\<not> list_ex (\<lambda>skip. contains t skip) skip_markers \<longleftrightarrow>
     (\<forall>marker \<in> {''Cookie'', ''Accept'', ''Login'', ''Sign in''}.
        \<not> (\<exists>pre post. t = pre @ marker @ post))"
  by (simp add: skip_markers_def contains_iff)

lemma collect_text_divs_filter:
  "collect_text_divs gt ds = map (\<lambda>d. (d, length (gt d))) (filter (survivor gt) ds)"
  by (induction ds) (simp_all add: Let_def survivor_def no_marker_iff)

lemma sorted_key_last_max:
  "sorted (map key ys) \<Longrightarrow> y \<in> set ys \<Longrightarrow> key y \<le> key (last ys)"
proof (induction ys rule: rev_induct)
  case Nil
  then show ?case by simp
next
  case (snoc x xs)
  then show ?case by (auto simp: sorted_append)
qed

lemma hd_sort_reverse:
  assumes "xs \<noteq> []"
  shows "hd (sort_reverse key xs) \<in> set xs"
    and "x \<in> set xs \<Longrightarrow> key x \<le> key (hd (sort_reverse key xs))"
proof -
  let ?ys = "sort_key key (rev xs)"
  have ne: "?ys \<noteq> []" using assms by (metis length_0_conv length_rev length_sort)
  have hd: "hd (sort_reverse key xs) = last ?ys"
    by (simp add: sort_reverse_def hd_rev)
  show "hd (sort_reverse key xs) \<in> set xs"
    using last_in_set [OF ne] hd by simp
  show "key x \<le> key (hd (sort_reverse key xs))" if "x \<in> set xs"
    using sorted_key_last_max [of key ?ys x] that hd by simp
qed

lemma sort_reverse_Nil: "sort_reverse key xs = [] \<longleftrightarrow> xs = []"
  by (metis length_0_conv length_rev length_sort sort_reverse_def)

lemma sort_reverse_empty: "sort_reverse key [] = []"
  by (simp add: sort_reverse_def)

lemma largest_text_div_None:
  "largest_text_div gt ds = None \<longleftrightarrow> (\<forall>d \<in> set ds. \<not> survivor gt d)"
proof -
  have "largest_text_div gt ds = None \<longleftrightarrow> collect_text_divs gt ds = []"
    by (auto simp: largest_text_div_def sort_reverse_Nil sort_reverse_empty split: list.splits)
  also have "\<dots> \<longleftrightarrow> (\<forall>d \<in> set ds. \<not> survivor gt d)"
    by (simp add: collect_text_divs_filter filter_empty_conv)
  finally show ?thesis .
qed

lemma largest_text_div_Some:
  assumes "largest_text_div gt ds = Some w"
  shows "w \<in> set ds" and "survivor gt w"
    and "d \<in> set ds \<Longrightarrow> survivor gt d \<Longrightarrow> length (gt d) \<le> length (gt w)"
proof -
  let ?c = "collect_text_divs gt ds"
  have ne: "?c \<noteq> []" and w: "w = fst (hd (sort_reverse snd ?c))"
    using assms by (auto simp: largest_text_div_def sort_reverse_Nil sort_reverse_empty split: list.splits)
  have "hd (sort_reverse snd ?c) \<in> set ?c" by (rule hd_sort_reverse(1) [OF ne])
  then obtain d' where d': "d' \<in> set ds" "survivor gt d'"
      "hd (sort_reverse snd ?c) = (d', length (gt d'))"
    by (auto simp: collect_text_divs_filter)
  then have wd: "w = d'" using w by simp
  show "w \<in> set ds" "survivor gt w" using d' wd by simp_all
  show "length (gt d) \<le> length (gt w)" if "d \<in> set ds" "survivor gt d"
  proof -
    have "(d, length (gt d)) \<in> set ?c" using that by (auto simp: collect_text_divs_filter)
    then have "snd (d, length (gt d)) \<le> snd (hd (sort_reverse snd ?c))"
      by (rule hd_sort_reverse(2) [OF ne])
    then show ?thesis using d' wd by simp
  qed
qed

lemma cookie_banner_not_survivor:
  "gt d = ''Cookie banner: accept all cookies...'' @ rest \<Longrightarrow> \<not> survivor gt d"
proof -
  assume t: "gt d = ''Cookie banner: accept all cookies...'' @ rest"
  have "take 100 (gt d) = [] @ ''Cookie'' @ ('' banner: accept all cookies...'' @ take 64 rest)"
    by (simp add: t)
  then have "\<exists>pre post. take 100 (gt d) = pre @ ''Cookie'' @ post" by blast
  then show ?thesis by (simp add: survivor_def)
qed


text \<open>
  C5. In the largest-div pass, which runs only when the selector pass found nothing, the
  divs kept are exactly the survivors: more than 200 characters of text, and none of the
  markers \<open>Cookie\<close>, \<open>Accept\<close>, \<open>Login\<close>, \<open>Sign in\<close> a substring of the first 100
  characters. The pass returns nothing exactly when there is no survivor, and otherwise a
  survivor of greatest text length. A div whose text starts with
  \<open>Cookie banner: accept all cookies...\<close> is no survivor and is never returned, however long.
\<close>

theorem largest_text_div_choice:
  "map fst (collect_text_divs get_text all_divs) = filter (survivor get_text) all_divs
   \<and> (largest_text_div get_text all_divs = None
        \<longleftrightarrow> (\<forall>d \<in> set all_divs. \<not> survivor get_text d))
   \<and> (\<forall>w. largest_text_div get_text all_divs = Some w \<longrightarrow>
          w \<in> set all_divs \<and> survivor get_text w
          \<and> (\<forall>d \<in> set all_divs. survivor get_text d
                \<longrightarrow> length (get_text d) \<le> length (get_text w)))
   \<and> (\<forall>d rest. get_text d = ''Cookie banner: accept all cookies...'' @ rest \<longrightarrow>
          \<not> survivor get_text d \<and> largest_text_div get_text all_divs \<noteq> Some d)
   \<and> find_main_content select get_text all_divs =
       (case select_pass select get_text None content_selectors of
          Some main_content \<Rightarrow> Some main_content
        | None \<Rightarrow> largest_text_div get_text all_divs)"
proof (intro conjI allI impI)
  show "map fst (collect_text_divs get_text all_divs) = filter (survivor get_text) all_divs"
    by (simp add: collect_text_divs_filter comp_def)
  show "largest_text_div get_text all_divs = None
        \<longleftrightarrow> (\<forall>d \<in> set all_divs. \<not> survivor get_text d)"
    by (rule largest_text_div_None)
  show "find_main_content select get_text all_divs =
       (case select_pass select get_text None content_selectors of
          Some main_content \<Rightarrow> Some main_content
        | None \<Rightarrow> largest_text_div get_text all_divs)"
    by (simp add: find_main_content_def)
next
  fix w assume w: "largest_text_div get_text all_divs = Some w"
  show "w \<in> set all_divs" by (rule largest_text_div_Some(1) [OF w])
  show "survivor get_text w" by (rule largest_text_div_Some(2) [OF w])
  show "\<forall>d \<in> set all_divs. survivor get_text d
                \<longrightarrow> length (get_text d) \<le> length (get_text w)"
    using largest_text_div_Some(3) [OF w] by blast
next
  fix d rest assume c: "get_text d = ''Cookie banner: accept all cookies...'' @ rest"
  then show n: "\<not> survivor get_text d" by (rule cookie_banner_not_survivor)
  show "largest_text_div get_text all_divs \<noteq> Some d"
    using n largest_text_div_Some(2) [of get_text all_divs d] by blast
qed

theorem largest_text_div_choice_witness:
  "largest_text_div div_text [10, 11, 12] = Some 11
   \<and> survivor div_text 11
   \<and> \<not> survivor div_text 10
   \<and> length (div_text 11) < length (div_text 10)
   \<and> find_main_content no_select div_text [10, 11, 12] = Some 11"
proof -
  have r: "largest_text_div div_text [10, 11, 12] = Some 11"
    by code_simp
  have c: "div_text 10 = ''Cookie banner: accept all cookies...'' @ replicate 400 CHR ''x''"
    by (simp add: div_text_def)
  have l: "length (div_text 11) < length (div_text 10)"
    by (simp add: div_text_def)
  have s: "select_pass no_select div_text None content_selectors = None"
    by (simp add: content_selectors_def no_select_def)
  show ?thesis
    using largest_text_div_choice [of div_text "[10, 11, 12]" no_select] r c l s
    by (simp add: r s)
qed

section \<open>The first-match Scorer\<close>

lemma first_match_at:
  "i < length sels \<Longrightarrow> select_one (sels ! i) = Some m
     \<Longrightarrow> \<forall>j < i. select_one (sels ! j) = None \<Longrightarrow> first_match select_one sels = Some m"
proof (induction sels arbitrary: i)
  case Nil
  then show ?case by simp
next
  case (Cons s sels)
  show ?case
  proof (cases i)
    case 0
    then show ?thesis using Cons.prems by simp
  next
    case (Suc k)
    then have "select_one s = None" using Cons.prems(3) by auto
    moreover have "first_match select_one sels = Some m"
      using Cons.IH [of k] Cons.prems Suc by fastforce
    ultimately show ?thesis by simp
  qed
qed

lemma first_match_none:
  "\<forall>s \<in> set sels. select_one s = None \<Longrightarrow> first_match select_one sels = None"
  by (induction sels) auto

lemma max_by_greatest:
  "max_by key b xs \<in> set (b # xs) \<and> (\<forall>x \<in> set (b # xs). key x \<le> key (max_by key b xs))"
proof (induction xs arbitrary: b)
  case Nil
  then show ?case by simp
next
  case (Cons x xs)
  show ?case
    using Cons.IH [of "if key x > key b then x else b"]
    by (auto split: if_splits)
qed


text \<open>
  C7, as amended. In the live-tab and Safari front ends (\<open>save_and_parse_arc.py\<close>,
  \<open>webpage_to_llm_safari.py\<close>) the element chosen is the match of the first selector of the
  ordered list that matches, with no comparison of text lengths. When no selector matches,
  it is a div of greatest text length among all divs, cookie banners included (in
  \<open>save_and_parse_arc.py\<close> provided some div has more than 100 characters, in
  \<open>webpage_to_llm_safari.py\<close> provided there is a div at all); and when there is no such div
  it is \<open>soup.body\<close>. The Selenium front end (\<open>webpage_to_llm_js.py\<close>) also takes the first
  lookup of its ordered chain that finds an element, but it has no pass over the divs: when
  no lookup finds anything it takes \<open>soup.body\<close>.
\<close>

theorem first_match_scorer:
  "(\<forall>i m. i < length arc_selectors \<and> select_one (arc_selectors ! i) = Some m
            \<and> (\<forall>j < i. select_one (arc_selectors ! j) = None)
          \<longrightarrow> arc_main_content select_one get_text divs body = Some m)
   \<and> (\<forall>i m. i < length safari_selectors \<and> select_one (safari_selectors ! i) = Some m
            \<and> (\<forall>j < i. select_one (safari_selectors ! j) = None)
          \<longrightarrow> safari_main_content select_one get_text divs body = Some m)
   \<and> ((\<forall>s \<in> set arc_selectors. select_one s = None) \<longrightarrow>
        (if \<exists>d \<in> set divs. 100 < length (get_text d)
         then \<exists>w. arc_main_content select_one get_text divs body = Some w \<and> w \<in> set divs
                \<and> (\<forall>d \<in> set divs. length (get_text d) \<le> length (get_text w))
         else arc_main_content select_one get_text divs body = body))
   \<and> ((\<forall>s \<in> set safari_selectors. select_one s = None) \<longrightarrow>
        (if divs \<noteq> []
         then \<exists>w. safari_main_content select_one get_text divs body = Some w \<and> w \<in> set divs
                \<and> (\<forall>d \<in> set divs. length (get_text d) \<le> length (get_text w))
         else safari_main_content select_one get_text divs body = body))
   \<and> (\<forall>i m. i < length js_queries \<and> lookup (js_queries ! i) = Some m
            \<and> (\<forall>j < i. lookup (js_queries ! j) = None)
          \<longrightarrow> js_main_content lookup = Some m)
   \<and> ((\<forall>q \<in> set js_queries. lookup q = None)
        \<longrightarrow> js_main_content lookup = lookup (ByName ''body''))"
proof (intro conjI allI impI)
  fix i m
  assume "i < length arc_selectors \<and> select_one (arc_selectors ! i) = Some m
            \<and> (\<forall>j < i. select_one (arc_selectors ! j) = None)"
  then have "first_match select_one arc_selectors = Some m"
    using first_match_at [of i arc_selectors select_one m] by blast
  then show "arc_main_content select_one get_text divs body = Some m"
    by (simp add: arc_main_content_def)
next
  fix i m
  assume "i < length safari_selectors \<and> select_one (safari_selectors ! i) = Some m
            \<and> (\<forall>j < i. select_one (safari_selectors ! j) = None)"
  then have "first_match select_one safari_selectors = Some m"
    using first_match_at [of i safari_selectors select_one m] by blast
  then show "safari_main_content select_one get_text divs body = Some m"
    by (simp add: safari_main_content_def)
next
  assume "\<forall>s \<in> set arc_selectors. select_one s = None"
  then have fm: "first_match select_one arc_selectors = None"
    by (rule first_match_none)
  let ?tds = "filter (\<lambda>d. snd d > 100) (map (\<lambda>d. (d, length (get_text d))) divs)"
  show "if \<exists>d \<in> set divs. 100 < length (get_text d)
         then \<exists>w. arc_main_content select_one get_text divs body = Some w \<and> w \<in> set divs
                \<and> (\<forall>d \<in> set divs. length (get_text d) \<le> length (get_text w))
         else arc_main_content select_one get_text divs body = body"
  proof (cases "\<exists>d \<in> set divs. 100 < length (get_text d)")
    case True
    then have "?tds \<noteq> []" by (auto simp: filter_empty_conv)
    then obtain t ts where tds: "?tds = t # ts" by (cases ?tds) auto
    define w where "w = max_by snd t ts"
    have win: "w \<in> set ?tds" and wmax: "\<forall>x \<in> set ?tds. snd x \<le> snd w"
      using max_by_greatest [of snd t ts] tds by (simp_all add: w_def)
    from win have w1: "fst w \<in> set divs" and w2: "snd w = length (get_text (fst w))"
      and w3: "100 < snd w" by auto
    have "length (get_text d) \<le> length (get_text (fst w))" if "d \<in> set divs" for d
    proof (cases "100 < length (get_text d)")
      case True
      then have "(d, length (get_text d)) \<in> set ?tds" using that by auto
      then show ?thesis using wmax w2 by fastforce
    next
      case False
      then show ?thesis using w2 w3 by simp
    qed
    moreover have "divs \<noteq> []" using True by auto
    then have "arc_main_content select_one get_text divs body = Some (fst w)"
      using fm tds by (simp add: arc_main_content_def w_def)
    ultimately show ?thesis using True w1 by auto
  next
    case False
    then have "?tds = []" by (auto simp: filter_empty_conv)
    then have "arc_main_content select_one get_text divs body = body"
      using fm by (simp add: arc_main_content_def split: option.splits)
    then show ?thesis using False by simp
  qed
next
  assume "\<forall>s \<in> set safari_selectors. select_one s = None"
  then have fm: "first_match select_one safari_selectors = None"
    by (rule first_match_none)
  show "if divs \<noteq> []
         then \<exists>w. safari_main_content select_one get_text divs body = Some w \<and> w \<in> set divs
                \<and> (\<forall>d \<in> set divs. length (get_text d) \<le> length (get_text w))
         else safari_main_content select_one get_text divs body = body"
  proof (cases divs)
    case Nil
    then show ?thesis using fm by (simp add: safari_main_content_def split: option.splits)
  next
    case (Cons d ds)
    have "safari_main_content select_one get_text divs body
            = Some (max_by (\<lambda>d. length (get_text d)) d ds)"
      using fm Cons by (simp add: safari_main_content_def)
    then show ?thesis
      using max_by_greatest [of "\<lambda>d. length (get_text d)" d ds] Cons by auto
  qed
next
  fix i m
  assume a: "i < length js_queries \<and> lookup (js_queries ! i) = Some m
            \<and> (\<forall>j < i. lookup (js_queries ! j) = None)"
  then have i: "i < 6" by (simp add: js_queries_def)
  have none: "lookup (js_queries ! j) = None" if "j < i" for j using a that by blast
  from i consider "i = 0" | "i = 1" | "i = 2" | "i = 3" | "i = 4" | "i = 5" by linarith
  then show "js_main_content lookup = Some m"
  proof cases
    case 1
    then show ?thesis using a by (simp add: js_main_content_def js_queries_def or_else_def)
  next
    case 2
    then show ?thesis using a none [of 0]
      by (simp add: js_main_content_def js_queries_def or_else_def)
  next
    case 3
    then show ?thesis using a none [of 0] none [of 1]
      by (simp add: js_main_content_def js_queries_def or_else_def)
  next
    case 4
    then show ?thesis using a none [of 0] none [of 1] none [of 2]
      by (simp add: js_main_content_def js_queries_def or_else_def)
  next
    case 5
    then show ?thesis using a none [of 0] none [of 1] none [of 2] none [of 3]
      by (simp add: js_main_content_def js_queries_def or_else_def)
  next
    case 6
    then show ?thesis using a none [of 0] none [of 1] none [of 2] none [of 3] none [of 4]
      by (simp add: js_main_content_def js_queries_def or_else_def)
  qed
next
  assume "\<forall>q \<in> set js_queries. lookup q = None"
  then show "js_main_content lookup = lookup (ByName ''body'')"
    by (simp add: js_main_content_def js_queries_def or_else_def)
qed

theorem first_match_scorer_witness:
  "arc_main_content only_main div_text [10, 11, 12] (Some 0) = Some 1
   \<and> safari_main_content only_main div_text [10, 11, 12] (Some 0) = Some 1
   \<and> arc_main_content no_select_one div_text [10, 11, 12] (Some 0) = Some 10
   \<and> safari_main_content no_select_one div_text [10, 11, 12] (Some 0) = Some 10
   \<and> arc_main_content no_select_one div_text [] (Some 0) = Some 0
   \<and> safari_main_content no_select_one div_text [] (Some 0) = Some 0
   \<and> js_main_content body_only = Some 0"
proof -
  have a0: "0 < length arc_selectors \<and> only_main (arc_selectors ! 0) = Some 1
            \<and> (\<forall>j < 0. only_main (arc_selectors ! j) = None)"
    by (simp add: arc_selectors_def only_main_def)
  have s0: "0 < length safari_selectors \<and> only_main (safari_selectors ! 0) = Some 1
            \<and> (\<forall>j < 0. only_main (safari_selectors ! j) = None)"
    by (simp add: safari_selectors_def only_main_def)
  have n: "\<forall>s \<in> set arc_selectors. no_select_one s = None"
      "\<forall>s \<in> set safari_selectors. no_select_one s = None"
    by (simp_all add: no_select_one_def)
  have big: "\<exists>d \<in> set [10, 11, 12]. 100 < length (div_text d)"
    by (simp add: div_text_def)
  have l: "length (div_text 11) < length (div_text 10)" "length (div_text 12) < length (div_text 10)"
    by (simp_all add: div_text_def)
  have 1: "arc_main_content only_main div_text [10, 11, 12] (Some 0) = Some 1"
    and 2: "safari_main_content only_main div_text [10, 11, 12] (Some 0) = Some 1"
    using first_match_scorer [of only_main div_text "[10, 11, 12]" "Some 0" body_only] a0 s0 by blast+
  note fallback = first_match_scorer [of no_select_one div_text "[10, 11, 12]" "Some 0" body_only]
  have "\<exists>w. arc_main_content no_select_one div_text [10, 11, 12] (Some 0) = Some w
          \<and> w \<in> set [10, 11, 12]
          \<and> (\<forall>d \<in> set [10, 11, 12]. length (div_text d) \<le> length (div_text w))"
    using fallback [THEN conjunct2, THEN conjunct2, THEN conjunct1] n(1) big
    by (simp only: if_True)
  then have 3: "arc_main_content no_select_one div_text [10, 11, 12] (Some 0) = Some 10"
    using l by auto
  have "\<exists>w. safari_main_content no_select_one div_text [10, 11, 12] (Some 0) = Some w
          \<and> w \<in> set [10, 11, 12]
          \<and> (\<forall>d \<in> set [10, 11, 12]. length (div_text d) \<le> length (div_text w))"
    using fallback [THEN conjunct2, THEN conjunct2, THEN conjunct2, THEN conjunct1] n(2)
    by simp
  then have 4: "safari_main_content no_select_one div_text [10, 11, 12] (Some 0) = Some 10"
    using l by auto
  have 5: "arc_main_content no_select_one div_text [] (Some 0) = Some 0"
    and 6: "safari_main_content no_select_one div_text [] (Some 0) = Some 0"
    using first_match_scorer [of no_select_one div_text "[]" "Some 0" body_only] n by auto
  have q: "\<forall>q \<in> set js_queries. body_only q = None"
    by (simp add: js_queries_def body_only_def)
  have "js_main_content body_only = body_only (ByName ''body'')"
    using first_match_scorer [of only_main div_text "[]" None body_only] q by blast
  then have 7: "js_main_content body_only = Some 0"
    by (simp add: body_only_def)
  show ?thesis using 1 2 3 4 5 6 7 by simp
qed

text \<open>
  C7 as stated fails for the Selenium front end. On a document in which no selector and no
  lookup matches, whose divs are 10, 11 and 12 and whose body is element 0, the Safari front
  end takes div 10, the longest, and the Selenium front end takes the body.
\<close>

theorem js_main_content_counterexample:
  "safari_main_content no_select_one div_text [10, 11, 12] (body_only (ByName ''body'')) = Some 10
   \<and> js_main_content body_only = Some 0"
  by (simp add: safari_main_content_def safari_selectors_def no_select_one_def div_text_def
      js_main_content_def body_only_def or_else_def)

section \<open>Recovering the URL\<close>

lemma url_loop_filter:
  "url_loop (filter (\<lambda>text. contains text ''saved from url'') ts) = url_loop ts"
  by (induction ts) (auto split: option.splits)

lemma saved_from_url_match_prefix:
  "saved_from_url_match s = Some g \<Longrightarrow> \<exists>x. s = ''saved from url=('' @ x"
  unfolding saved_from_url_match_def
  by (cases "startswith s ''saved from url=(''") (auto simp: startswith_iff)

lemma re_search_split:
  "re_search s = Some g \<Longrightarrow> \<exists>pre t. s = pre @ t \<and> saved_from_url_match t = Some g"
proof (induction s)
  case Nil
  then show ?case by simp
next
  case (Cons c cs)
  show ?case
  proof (cases "saved_from_url_match (c # cs)")
    case None
    then have "re_search cs = Some g" using Cons.prems by simp
    then obtain pre t where "cs = pre @ t" "saved_from_url_match t = Some g"
      using Cons.IH by blast
    then have "c # cs = (c # pre) @ t \<and> saved_from_url_match t = Some g" by simp
    then show ?thesis by blast
  next
    case (Some h)
    then have "c # cs = [] @ (c # cs) \<and> saved_from_url_match (c # cs) = Some g"
      using Cons.prems by simp
    then show ?thesis by blast
  qed
qed

lemma re_search_contains:
  assumes "re_search s = Some g"
  shows "contains s ''saved from url''"
proof -
  obtain pre t where s: "s = pre @ t" and t: "saved_from_url_match t = Some g"
    using re_search_split [OF assms] by blast
  obtain x where "t = ''saved from url=('' @ x"
    using saved_from_url_match_prefix [OF t] by blast
  then have "s = pre @ ''saved from url'' @ (''=('' @ x)" using s by simp
  then show ?thesis unfolding contains_iff by blast
qed

lemma url_loop_None:
  "url_loop ts = None \<longleftrightarrow> (\<forall>t \<in> set ts. re_search t = None)"
proof (induction ts)
  case Nil
  then show ?case by simp
next
  case (Cons t ts)
  show ?case
  proof (cases "re_search t")
    case None
    then show ?thesis using Cons.IH by simp
  next
    case (Some g)
    then have "contains t ''saved from url''" by (rule re_search_contains)
    then show ?thesis using Some by simp
  qed
qed

lemma url_loop_Some:
  "url_loop ts = Some u \<Longrightarrow>
     \<exists>i < length ts. \<exists>g. re_search (ts ! i) = Some g \<and> u = py_strip g
        \<and> (\<forall>j < i. re_search (ts ! j) = None)"
proof (induction ts)
  case Nil
  then show ?case by simp
next
  case (Cons t ts)
  show ?case
  proof (cases "re_search t")
    case None
    then have "url_loop ts = Some u" using Cons.prems by (simp split: if_splits)
    then obtain i g where i: "i < length ts" "re_search (ts ! i) = Some g" "u = py_strip g"
        "\<forall>j < i. re_search (ts ! j) = None"
      using Cons.IH by blast
    have "\<forall>j < Suc i. re_search ((t # ts) ! j) = None"
      using None i(4) by (auto simp: nth_Cons split: nat.splits)
    then have "Suc i < length (t # ts) \<and> re_search ((t # ts) ! Suc i) = Some g \<and> u = py_strip g
        \<and> (\<forall>j < Suc i. re_search ((t # ts) ! j) = None)"
      using i by simp
    then show ?thesis by blast
  next
    case (Some g)
    then have "contains t ''saved from url''" by (rule re_search_contains)
    then have "u = py_strip g" using Some Cons.prems by simp
    then have "0 < length (t # ts) \<and> re_search ((t # ts) ! 0) = Some g \<and> u = py_strip g
        \<and> (\<forall>j < 0. re_search ((t # ts) ! j) = None)"
      using Some by simp
    then show ?thesis by blast
  qed
qed


lemma startswith_drop:
  "startswith s p \<Longrightarrow> length p = n \<Longrightarrow> s = p @ drop n s"
  by (auto simp: startswith_iff)

lemma saved_from_url_match_shape:
  assumes "saved_from_url_match s = Some g"
  shows "\<exists>digits rest post.
           s = ''saved from url=('' @ digits @ '')'' @ g @ post
           \<and> digits \<noteq> [] \<and> (\<forall>c \<in> set digits. isdigit c)
           \<and> (g = ''http://'' @ rest \<or> g = ''https://'' @ rest)
           \<and> rest \<noteq> [] \<and> (\<forall>c \<in> set rest. \<not> isspace c)
           \<and> (post = [] \<or> isspace (hd post))"
proof -
  define s1 where "s1 = drop 16 s"
  define digits where "digits = takeWhile isdigit s1"
  define s2 where "s2 = dropWhile isdigit s1"
  define s3 where "s3 = drop 1 s2"
  define s4 where "s4 = drop 4 s3"
  define s5 where "s5 = (if startswith s4 ''s'' then drop 1 s4 else s4)"
  define scheme where "scheme = (if startswith s4 ''s'' then ''https'' else ''http'')"
  define s6 where "s6 = drop 3 s5"
  define rest where "rest = takeWhile (\<lambda>c. \<not> isspace c) s6"
  define post where "post = dropWhile (\<lambda>c. \<not> isspace c) s6"
  have m: "(if \<not> startswith s ''saved from url=('' then None
            else if digits = [] then None
            else if \<not> startswith s2 '')'' then None
            else if \<not> startswith s3 ''http'' then None
            else if \<not> startswith s5 ''://'' then None
            else if rest = [] then None
            else Some (scheme @ ''://'' @ rest)) = Some g"
    using assms
    unfolding saved_from_url_match_def Let_def s1_def digits_def s2_def s3_def s4_def s5_def
      scheme_def s6_def rest_def
    by simp
  then have c1: "startswith s ''saved from url=(''" and c2: "digits \<noteq> []"
    and c3: "startswith s2 '')''" and c4: "startswith s3 ''http''"
    and c5: "startswith s5 ''://''" and c6: "rest \<noteq> []"
    and g: "g = scheme @ ''://'' @ rest"
    by (auto split: if_splits)
  have e1: "s = ''saved from url=('' @ s1"
    using startswith_drop [OF c1, of 16] by (simp add: s1_def)
  have e2: "s1 = digits @ s2" by (simp add: digits_def s2_def)
  have e3: "s2 = '')'' @ s3" using startswith_drop [OF c3, of 1] by (simp add: s3_def)
  have e4: "s3 = ''http'' @ s4" using startswith_drop [OF c4, of 4] by (simp add: s4_def)
  have e5: "s4 = drop 4 scheme @ s5"
  proof (cases "startswith s4 ''s''")
    case True
    then show ?thesis using startswith_drop [OF True, of 1] by (simp add: s5_def scheme_def)
  next
    case False
    then show ?thesis by (simp add: s5_def scheme_def)
  qed
  have e5': "''http'' @ drop 4 scheme = scheme" by (simp add: scheme_def)
  have e6: "s5 = ''://'' @ s6" using startswith_drop [OF c5, of 3] by (simp add: s6_def)
  have e7: "s6 = rest @ post" by (simp add: rest_def post_def)
  have "s3 = scheme @ s5" using e4 e5 e5' by (metis append.assoc)
  then have "s3 = g @ post" using e6 e7 g by simp
  then have whole: "s = ''saved from url=('' @ digits @ '')'' @ g @ post"
    using e1 e2 e3 by simp
  have dig: "\<forall>c \<in> set digits. isdigit c"
    using set_takeWhileD by (fastforce simp: digits_def)
  have nosp: "\<forall>c \<in> set rest. \<not> isspace c"
    using set_takeWhileD by (fastforce simp: rest_def)
  have post: "post = [] \<or> isspace (hd post)"
    using hd_dropWhile [of "\<lambda>c. \<not> isspace c" s6] by (auto simp: post_def)
  have sch: "g = ''http://'' @ rest \<or> g = ''https://'' @ rest"
    using g by (simp add: scheme_def)
  show ?thesis using whole c2 dig sch c6 nosp post by blast
qed

lemma py_strip_no_space:
  assumes "\<forall>c \<in> set s. \<not> isspace c"
  shows "py_strip s = s"
proof -
  have keep: "dropWhile isspace xs = xs" if "\<forall>c \<in> set xs. \<not> isspace c" for xs
    using that by (cases xs) auto
  have "dropWhile isspace s = s"
    using assms by (rule keep)
  moreover have "dropWhile isspace (rev s) = rev s"
    using assms by (intro keep) simp
  ultimately show ?thesis by (simp add: py_strip_def)
qed


lemma url_loop_skip:
  "\<forall>t \<in> set ts. re_search t = None \<Longrightarrow> url_loop (ts @ rest) = url_loop rest"
  by (induction ts) auto

lemma recover_url_loop: "recover_url nodes = url_loop (map snd nodes)"
  by (simp add: recover_url_def url_loop_filter)

lemma re_search_no_space:
  assumes "re_search t = Some g"
  shows "\<forall>c \<in> set g. \<not> isspace c"
proof -
  obtain t' where "saved_from_url_match t' = Some g"
    using re_search_split [OF assms] by blast
  then obtain rest where "g = ''http://'' @ rest \<or> g = ''https://'' @ rest"
      "\<forall>c \<in> set rest. \<not> isspace c"
    using saved_from_url_match_shape by blast
  then show ?thesis by (auto simp: isspace_def)
qed

text \<open>
  What the loop computes, for any sequence of string nodes: the first node in which the
  pattern \<open>saved from url=\(\d+\)(https?://[^\s]+)\<close> is found gives the URL, the captured
  group (trimming changes nothing, the group has no white space), which in the node follows
  \<open>saved from url=(\<close>, one or more digits and \<open>)\<close>, starts with \<open>http://\<close> or \<open>https://\<close>
  and runs up to the next white space or the end; when the pattern is found in no node the
  URL is \<open>None\<close>. A document whose first node with a match is the comment
  \<open><!-- saved from url=(0043)https://example.com/page -->\<close> yields
  \<open>https://example.com/page\<close>. The kind of a node plays no part.
\<close>

lemma recover_url_nodes:
  "(recover_url nodes = None \<longleftrightarrow> (\<forall>n \<in> set nodes. re_search (snd n) = None))
   \<and> (\<forall>u. recover_url nodes = Some u \<longrightarrow>
         (\<exists>i < length nodes.
            re_search (snd (nodes ! i)) = Some u
            \<and> py_strip u = u
            \<and> (\<forall>j < i. re_search (snd (nodes ! j)) = None)
            \<and> (\<exists>pre digits rest post.
                  snd (nodes ! i) = pre @ ''saved from url=('' @ digits @ '')'' @ u @ post
                  \<and> digits \<noteq> [] \<and> (\<forall>c \<in> set digits. isdigit c)
                  \<and> (u = ''http://'' @ rest \<or> u = ''https://'' @ rest)
                  \<and> rest \<noteq> [] \<and> (\<forall>c \<in> set rest. \<not> isspace c)
                  \<and> (post = [] \<or> isspace (hd post)))))
   \<and> ((\<forall>n \<in> set before. re_search (snd n) = None) \<longrightarrow>
        recover_url (before @ (kind, '' saved from url=(0043)https://example.com/page '') # after)
          = Some ''https://example.com/page'')"
proof (intro conjI allI impI)
  show "recover_url nodes = None \<longleftrightarrow> (\<forall>n \<in> set nodes. re_search (snd n) = None)"
    by (simp add: recover_url_loop url_loop_None)
next
  fix u assume "recover_url nodes = Some u"
  then have "url_loop (map snd nodes) = Some u" by (simp add: recover_url_loop)
  then obtain i g where i: "i < length nodes" and g: "re_search (map snd nodes ! i) = Some g"
      and u: "u = py_strip g" and first: "\<forall>j < i. re_search (map snd nodes ! j) = None"
    using url_loop_Some [of "map snd nodes" u] by auto
  have "py_strip g = g"
    using re_search_no_space [OF g] by (rule py_strip_no_space)
  then have ug: "u = g" using u by simp
  have g': "re_search (snd (nodes ! i)) = Some u" using g i ug by simp
  have first': "\<forall>j < i. re_search (snd (nodes ! j)) = None"
    using first i by simp
  obtain pre t where t: "snd (nodes ! i) = pre @ t" "saved_from_url_match t = Some u"
    using re_search_split [OF g'] by blast
  obtain digits rest post where
    "t = ''saved from url=('' @ digits @ '')'' @ u @ post"
    "digits \<noteq> []" "\<forall>c \<in> set digits. isdigit c"
    "u = ''http://'' @ rest \<or> u = ''https://'' @ rest"
    "rest \<noteq> []" "\<forall>c \<in> set rest. \<not> isspace c" "post = [] \<or> isspace (hd post)"
    using saved_from_url_match_shape [OF t(2)] by blast
  then have shape: "\<exists>pre digits rest post.
                  snd (nodes ! i) = pre @ ''saved from url=('' @ digits @ '')'' @ u @ post
                  \<and> digits \<noteq> [] \<and> (\<forall>c \<in> set digits. isdigit c)
                  \<and> (u = ''http://'' @ rest \<or> u = ''https://'' @ rest)
                  \<and> rest \<noteq> [] \<and> (\<forall>c \<in> set rest. \<not> isspace c)
                  \<and> (post = [] \<or> isspace (hd post))"
    using t(1) by blast
  have "py_strip u = u" using \<open>py_strip g = g\<close> ug by simp
  then show "\<exists>i < length nodes.
            re_search (snd (nodes ! i)) = Some u
            \<and> py_strip u = u
            \<and> (\<forall>j < i. re_search (snd (nodes ! j)) = None)
            \<and> (\<exists>pre digits rest post.
                  snd (nodes ! i) = pre @ ''saved from url=('' @ digits @ '')'' @ u @ post
                  \<and> digits \<noteq> [] \<and> (\<forall>c \<in> set digits. isdigit c)
                  \<and> (u = ''http://'' @ rest \<or> u = ''https://'' @ rest)
                  \<and> rest \<noteq> [] \<and> (\<forall>c \<in> set rest. \<not> isspace c)
                  \<and> (post = [] \<or> isspace (hd post)))"
    using i g' first' shape by blast
next
  assume b: "\<forall>n \<in> set before. re_search (snd n) = None"
  let ?c = "'' saved from url=(0043)https://example.com/page ''"
  have 1: "contains ?c ''saved from url''" by code_simp
  have 2: "re_search ?c = Some ''https://example.com/page''" by code_simp
  have 3: "py_strip ''https://example.com/page'' = ''https://example.com/page''" by code_simp
  have "recover_url (before @ (kind, ?c) # after)
          = url_loop (map snd before @ (?c # map snd after))"
    by (simp add: recover_url_loop)
  also have "\<dots> = url_loop (?c # map snd after)"
    using b by (intro url_loop_skip) simp
  also have "\<dots> = Some ''https://example.com/page''"
    using 1 2 3 by (simp del: contains.simps re_search.simps)
  finally show "recover_url (before @ (kind, ?c) # after) = Some ''https://example.com/page''" .
qed

text \<open>
  C6. URL recovery is to scan the HTML comments, and the URL is to be \<open>None\<close> when no
  comment matches; the comments of the source say the same (\<open>Try to extract URL from saved
  comment\<close>). The code does otherwise on a document with no comment at all whose ordinary text
  contains \<open>saved from url=(0043)https://example.com/page\<close>: the filter given to \<open>find_all\<close>
  accepts every string node, and the recovered URL is \<open>https://example.com/page\<close>.
\<close>

theorem recover_url_text_node:
  "filter (\<lambda>n. fst n = CommentNode)
          [(TextNode, ''saved from url=(0043)https://example.com/page'')] = []
   \<and> recover_url [(TextNode, ''saved from url=(0043)https://example.com/page'')]
       = Some ''https://example.com/page''"
  by code_simp

section \<open>The cascade\<close>

lemmas run_defs = and_then_def call_def enter_def

text \<open>
  C1. With the method \<open>auto\<close>, when trafilatura returns a Markdown string that is not empty,
  the output ends with that string unchanged, right after the title line, the source line
  and the separator, and the run enters the engine only: the Scorer (and the raw-text
  fallback) is not entered. This holds for the file-based flow (\<open>parse_html_file\<close>) and for
  the network flow (\<open>process_webpage\<close>), whatever the HTML and the URL.
\<close>

theorem engine_result_verbatim:
  "markdown \<noteq> [] \<Longrightarrow>
     (read_text L file_path = Inr html \<and> BeautifulSoup L html = Inr soup
        \<and> trafilatura_extract L html (recover_url (string_nodes L soup)) = Inr (Some markdown)
      \<longrightarrow> (\<exists>head. parse_html_file L file_path ''auto''
                    = (Inr (head @ [newline, newline] @ ''---'' @ [newline, newline] @ markdown),
                       [Engine])))
     \<and> (fetch_webpage L u verify_ssl = Inr html' \<and> BeautifulSoup L html' = Inr soup'
        \<and> trafilatura_extract L html' (Some u) = Inr (Some markdown)
      \<longrightarrow> (\<exists>head. process_webpage L u ''auto'' verify_ssl
                    = (Inr (head @ [newline, newline] @ ''---'' @ [newline, newline] @ markdown),
                       [Engine])))"
proof (intro conjI impI)
  assume md: "markdown \<noteq> []"
  assume h: "read_text L file_path = Inr html \<and> BeautifulSoup L html = Inr soup
        \<and> trafilatura_extract L html (recover_url (string_nodes L soup)) = Inr (Some markdown)"
  let ?url = "recover_url (string_nodes L soup)"
  let ?title = "case soup_find L soup (ByName ''title'') of
                      Some t \<Rightarrow> tag_string L soup t
                    | None \<Rightarrow> Some ''Untitled''"
  have 1: "method1 L html ?url ''auto'' = (Inr (Some markdown), [Engine])"
    using h by (simp add: method1_def run_defs)
  have 2: "method2 L soup (Some markdown) ''auto'' = (Inr (soup, Some markdown), [])"
    using md by (simp add: method2_def truthy_def)
  have 3: "method3 L soup (Some markdown) = (Inr (Some markdown), [])"
    using md by (simp add: method3_def truthy_def)
  have r: "parse_html_file L file_path ''auto''
             = (Inr (format_output ?title ?url (Some markdown)), [Engine])"
    using h 1 2 3 unfolding parse_html_file_def Let_def
    by (simp add: run_defs)
  have "\<exists>head. format_output ?title ?url (Some markdown)
           = head @ [newline, newline] @ ''---'' @ [newline, newline] @ markdown"
    using md by (cases ?url) (auto simp: format_output_def separator_def)
  then show "\<exists>head. parse_html_file L file_path ''auto''
                    = (Inr (head @ [newline, newline] @ ''---'' @ [newline, newline] @ markdown),
                       [Engine])"
    using r by auto
next
  assume md: "markdown \<noteq> []"
  assume h: "fetch_webpage L u verify_ssl = Inr html' \<and> BeautifulSoup L html' = Inr soup'
        \<and> trafilatura_extract L html' (Some u) = Inr (Some markdown)"
  let ?metadata = "extract_metadata L soup' u"
  let ?out = "py_join [newline]
                    ([''# '' @ (if truthy (meta_title ?metadata) then str_opt (meta_title ?metadata)
                                else ''Untitled''),
                      ''Source: '' @ u]
                     @ (if truthy (meta_description ?metadata)
                        then [''Description: '' @ str_opt (meta_description ?metadata)] else [])
                     @ [separator]
                     @ [markdown])"
  have tr: "truthy (Some markdown)" using md by (simp add: truthy_def)
  have so: "str_opt (Some markdown) = markdown" by (simp add: str_opt_def)
  have t: "process_webpage_try L u ''auto'' verify_ssl = (Inr ?out, [Engine])"
    using h tr so unfolding process_webpage_try_def Let_def
    by (simp add: run_defs extract_with_trafilatura_def)
  then have r: "process_webpage L u ''auto'' verify_ssl = (Inr ?out, [Engine])"
    by (simp add: process_webpage_def)
  have "\<exists>head. ?out = head @ [newline, newline] @ ''---'' @ [newline, newline] @ markdown"
    by (auto simp: separator_def)
  then show "\<exists>head. process_webpage L u ''auto'' verify_ssl
                    = (Inr (head @ [newline, newline] @ ''---'' @ [newline, newline] @ markdown),
                       [Engine])"
    using r by auto
qed


theorem engine_result_verbatim_witness:
  "example_markdown \<noteq> []
   \<and> (\<exists>head. parse_html_file example_lib ''page.html'' ''auto''
          = (Inr (head @ [newline, newline] @ ''---'' @ [newline, newline] @ example_markdown),
             [Engine]))
   \<and> (\<exists>head. process_webpage example_lib ''https://example.com/docs'' ''auto'' True
          = (Inr (head @ [newline, newline] @ ''---'' @ [newline, newline] @ example_markdown),
             [Engine]))
   \<and> parse_html_file example_lib ''page.html'' ''auto''
       = (Inr (''# Docs'' @ [newline, newline] @ ''---'' @ [newline, newline] @ example_markdown),
          [Engine])
   \<and> process_webpage example_lib ''https://example.com/docs'' ''auto'' True
       = (Inr (''# Docs'' @ [newline] @ ''Source: https://example.com/docs''
               @ [newline, newline] @ ''---'' @ [newline, newline] @ example_markdown),
          [Engine])"
proof -
  have on_file: "parse_html_file example_lib ''page.html'' ''auto''
       = (Inr (''# Docs'' @ [newline, newline] @ ''---'' @ [newline, newline] @ example_markdown),
          [Engine])"
    by code_simp
  have on_net: "process_webpage example_lib ''https://example.com/docs'' ''auto'' True
       = (Inr (''# Docs'' @ [newline] @ ''Source: https://example.com/docs''
               @ [newline, newline] @ ''---'' @ [newline, newline] @ example_markdown),
          [Engine])"
    by code_simp
  have m: "example_markdown \<noteq> []" by (simp add: example_markdown_def)
  have a: "read_text example_lib ''page.html'' = Inr example_html
           \<and> BeautifulSoup example_lib example_html = Inr 0
           \<and> trafilatura_extract example_lib example_html
                (recover_url (string_nodes example_lib 0)) = Inr (Some example_markdown)"
    by (simp add: example_lib_def)
  have b: "fetch_webpage example_lib ''https://example.com/docs'' True = Inr example_html
           \<and> BeautifulSoup example_lib example_html = Inr 0
           \<and> trafilatura_extract example_lib example_html (Some ''https://example.com/docs'')
               = Inr (Some example_markdown)"
    by (simp add: example_lib_def fetch_webpage_def)
  have "(\<exists>head. parse_html_file example_lib ''page.html'' ''auto''
          = (Inr (head @ [newline, newline] @ ''---'' @ [newline, newline] @ example_markdown),
             [Engine]))
   \<and> (\<exists>head. process_webpage example_lib ''https://example.com/docs'' ''auto'' True
          = (Inr (head @ [newline, newline] @ ''---'' @ [newline, newline] @ example_markdown),
             [Engine]))"
    using engine_result_verbatim [OF m, of example_lib "''page.html''" example_html 0
            "''https://example.com/docs''" True example_html 0] a b
    by blast
  then show ?thesis using m on_file on_net by blast
qed

section \<open>Failures\<close>













end
